theory Spec2Isabelle
  imports Main "HOL-Library.Sublist"
begin

section \<open>Documents and the store\<close>

text \<open>
  The backend keeps two MongoDB collections, users and connection requests, and reaches
  them through Mongoose. An ObjectId is modelled as a natural number and a timestamp as a
  natural number. A collection is the list of its documents in the order in which the
  store returns them to a query without a sort stage. Route parameters are taken as
  ObjectIds: a parameter that is no well-formed ObjectId makes the first query throw a
  cast error, which every route reports from its \<^verbatim>\<open>catch\<close> block without a write.
\<close>

type_synonym objectId = nat
type_synonym timestamp = nat

text \<open>
  The JavaScript values that occur in a JSON request body and in the fields of a user
  document. Numbers are modelled as integers.
\<close>

datatype jsval = JUndefined | JNull | JBool bool | JNum int | JStr string

text \<open>
  A user document (\<^verbatim>\<open>models/user.js\<close>): its \<^verbatim>\<open>_id\<close> and its paths
  (\<^verbatim>\<open>firstName\<close>, \<^verbatim>\<open>lastName\<close>, \<^verbatim>\<open>emailId\<close>, \<^verbatim>\<open>password\<close>, \<^verbatim>\<open>age\<close>,
  \<^verbatim>\<open>gender\<close>, \<^verbatim>\<open>image\<close>, \<^verbatim>\<open>about\<close>, ...) read by name; a path that is not set reads
  as \<^verbatim>\<open>undefined\<close>.
\<close>

record user =
  uid :: objectId
  path :: "string \<Rightarrow> jsval"

text \<open>
  A connection request document. The file \<^verbatim>\<open>models/connectionRequest.js\<close> is not part of
  the sources; the layout is the one documented in \<^verbatim>\<open>comments.md\<close>:
  \<^verbatim>\<open>{_id, fromUserId, toUserId, status: String (like/pass/accept/reject), createdAt, updatedAt}\<close>.
  The check that the model makes when a new request is saved is \<open>canSend\<close> below.
\<close>

record connectionRequest =
  rid :: objectId
  fromUserId :: objectId
  toUserId :: objectId
  status :: string
  createdAt :: timestamp
  updatedAt :: timestamp

record db =
  users :: "user list"
  requests :: "connectionRequest list"

text \<open>
  What a route answers when it does not answer with success. The constructors written in
  capitals are the \<^verbatim>\<open>error\<close> codes of the JSON answers; the others are exceptions caught by
  the \<^verbatim>\<open>catch\<close> block of a route and reported with \<^verbatim>\<open>err.message\<close>.
\<close>

datatype error =
    AUTH_USER_NOT_FOUND      \<comment> \<open>401 of \<^verbatim>\<open>userAuth\<close>: the token's user is not in the store\<close>
  | InvalidSendStatus        \<comment> \<open>thrown by send: "Invalid status. Only like or pass are allowed"\<close>
  | USER_NOT_FOUND           \<comment> \<open>404 of send\<close>
  | DUPLICATE_REQUEST        \<comment> \<open>400 of send\<close>
  | SelfRequestRefused       \<comment> \<open>thrown by \<^verbatim>\<open>save()\<close> of a request from a user to herself\<close>
  | INVALID_STATUS           \<comment> \<open>400 of review\<close>
  | REQUEST_NOT_FOUND        \<comment> \<open>400 of review\<close>
  | TypeError                \<comment> \<open>a property read on \<^verbatim>\<open>null\<close>\<close>
  | SkipNegative             \<comment> \<open>the store refuses a negative \<^verbatim>\<open>skip\<close>\<close>
  | FirstNameRequired
  | LastNameRequired
  | GenderRequired
  | GenderInvalid
  | AgeOutOfRange
  | InvalidUpdateData        \<comment> \<open>thrown by the profile update: "Invalid update data provided"\<close>
  | ValidationError          \<comment> \<open>the user schema refuses the document on \<^verbatim>\<open>save\<close>\<close>

subsection \<open>Queries\<close>

definition findById :: "db \<Rightarrow> objectId \<Rightarrow> user option" where
  "findById d i = List.find (\<lambda>u. uid u = i) (users d)"

definition findOne :: "(connectionRequest \<Rightarrow> bool) \<Rightarrow> db \<Rightarrow> connectionRequest option" where
  "findOne P d = List.find P (requests d)"

definition findAll :: "(connectionRequest \<Rightarrow> bool) \<Rightarrow> db \<Rightarrow> connectionRequest list" where
  "findAll P d = filter P (requests d)"

text \<open>
  The \<^verbatim>\<open>_id\<close> that \<^verbatim>\<open>new ConnectionRequest(...)\<close> gives a document: an ObjectId that no
  stored request has.
\<close>

definition newObjectId :: "db \<Rightarrow> objectId" where
  "newObjectId d = Suc (fold max (map rid (requests d)) 0)"

text \<open>
  \<^verbatim>\<open>doc.save()\<close> of an existing request whose \<^verbatim>\<open>status\<close> was assigned: one
  \<^verbatim>\<open>updateOne({_id}, {$set: {status, updatedAt}})\<close>, which changes the first document with
  that \<^verbatim>\<open>_id\<close>.
\<close>

fun updateOne :: "objectId \<Rightarrow> string \<Rightarrow> timestamp \<Rightarrow> connectionRequest list \<Rightarrow> connectionRequest list" where
  "updateOne i s t [] = []"
| "updateOne i s t (r # rs) =
     (if rid r = i then r\<lparr>status := s, updatedAt := t\<rparr> # rs else r # updateOne i s t rs)"

subsection \<open>The authentication middleware\<close>

text \<open>
  \<^verbatim>\<open>userAuth\<close> after the token is verified: the \<^verbatim>\<open>_id\<close> of the token is looked up and the
  user document is attached to the request as \<^verbatim>\<open>req.user\<close>.
\<close>

definition userAuth :: "db \<Rightarrow> objectId \<Rightarrow> error + user" where
  "userAuth d i = (case findById d i of None \<Rightarrow> Inl AUTH_USER_NOT_FOUND | Some u \<Rightarrow> Inr u)"

section \<open>Sending and reviewing connection requests\<close>

text \<open>
  The human-readable \<^verbatim>\<open>message\<close> of an answer: which template it is and the values
  interpolated into it.
\<close>

datatype message =
    Interested jsval jsval         \<comment> \<open>"A is interested in connecting with B"\<close>
  | Passed jsval jsval             \<comment> \<open>"A has passed on connecting with B"\<close>
  | Reviewed jsval string jsval    \<comment> \<open>"B accepted the connection request from A"\<close>

record reply =
  msg :: "message option"
  data :: connectionRequest
  statusEcho :: string
  fromUser :: "jsval \<times> jsval"     \<comment> \<open>\<^verbatim>\<open>{firstName, lastName}\<close>\<close>
  toUser :: "jsval \<times> jsval"

definition allowedStatus :: "string list" where
  "allowedStatus = [''like'', ''pass'']"

definition isAllowedStatus :: "string list" where
  "isAllowedStatus = [''accept'', ''reject'']"

definition names :: "user \<Rightarrow> jsval \<times> jsval" where
  "names u = (path u ''firstName'', path u ''lastName'')"

text \<open>
  The duplicate lookup of send: \<^verbatim>\<open>$or: [{fromUserId, toUserId}, {fromUserId: toUserId,
  toUserId: fromUserId}]\<close>.
\<close>

definition existingRequest :: "objectId \<Rightarrow> objectId \<Rightarrow> connectionRequest \<Rightarrow> bool" where
  "existingRequest f t r \<longleftrightarrow>
     (fromUserId r = f \<and> toUserId r = t) \<or> (fromUserId r = t \<and> toUserId r = f)"

text \<open>
  Modelled from the spec: the check that \<^verbatim>\<open>connectionRequest.save()\<close> makes on a new
  request. It belongs to \<^verbatim>\<open>models/connectionRequest.js\<close>, which is not among the sources.
  The spec says of every ConnectionRequest that \<^verbatim>\<open>fromUserId\<close> differs from \<^verbatim>\<open>toUserId\<close>,
  that a send of a user to herself always fails, and that \<^verbatim>\<open>canSend(actorId, targetId)\<close> is
  true iff \<^verbatim>\<open>actorId != targetId\<close>.
\<close>

definition canSend :: "objectId \<Rightarrow> objectId \<Rightarrow> bool" where
  "canSend actorId targetId \<longleftrightarrow> actorId \<noteq> targetId"

text \<open>
  The handler of \<^verbatim>\<open>POST /request/send/:status/:toUserId\<close>, with \<^verbatim>\<open>req.user\<close> as
  \<open>loggedUser\<close> and the time of the call. It answers with the store it leaves behind.
  The handler itself compares neither id with the other; \<^verbatim>\<open>save()\<close> is its last step
  before the answer, and a request that the model refuses there is thrown to the
  \<^verbatim>\<open>catch\<close> block and not stored.
\<close>

definition send ::
  "db \<Rightarrow> user \<Rightarrow> string \<Rightarrow> objectId \<Rightarrow> timestamp \<Rightarrow> db \<times> (error + reply)" where
  "send d loggedUser st toId now =
     (let fromId = uid loggedUser in
      if st \<notin> set allowedStatus then (d, Inl InvalidSendStatus)
      else case findById d toId of
        None \<Rightarrow> (d, Inl USER_NOT_FOUND)
      | Some findToUserId \<Rightarrow>
          (case findOne (existingRequest fromId toId) d of
             Some _ \<Rightarrow> (d, Inl DUPLICATE_REQUEST)
           | None \<Rightarrow>
               if \<not> canSend fromId toId then (d, Inl SelfRequestRefused)
               else
               (let saved = \<lparr>rid = newObjectId d, fromUserId = fromId, toUserId = toId,
                              status = st, createdAt = now, updatedAt = now\<rparr>;
                    message = (if st = ''like''
                               then Some (Interested (path loggedUser ''firstName'')
                                                     (path findToUserId ''firstName''))
                               else if st = ''pass''
                               then Some (Passed (path loggedUser ''firstName'')
                                                 (path findToUserId ''firstName''))
                               else None)
                in (d\<lparr>requests := requests d @ [saved]\<rparr>,
                    Inr \<lparr>msg = message, data = saved, statusEcho = st,
                         fromUser = names loggedUser, toUser = names findToUserId\<rparr>))))"

text \<open>
  The lookup of review: \<^verbatim>\<open>{_id: requestId, toUserId: loggedUser._id, status: "like"}\<close>.
\<close>

definition reviewable :: "objectId \<Rightarrow> objectId \<Rightarrow> connectionRequest \<Rightarrow> bool" where
  "reviewable requestId me r \<longleftrightarrow> rid r = requestId \<and> toUserId r = me \<and> status r = ''like''"

text \<open>
  The handler of \<^verbatim>\<open>POST /request/review/:status/:requestId\<close>. The sender is read with
  \<^verbatim>\<open>select("firstName lastName")\<close>; the request is saved before the sender's name is first
  used, so a request whose sender is gone is updated and the call still answers with the
  caught \<^verbatim>\<open>TypeError\<close>.
\<close>

definition review ::
  "db \<Rightarrow> user \<Rightarrow> string \<Rightarrow> objectId \<Rightarrow> timestamp \<Rightarrow> db \<times> (error + reply)" where
  "review d loggedUser st requestId now =
     (if st \<notin> set isAllowedStatus then (d, Inl INVALID_STATUS)
      else case findOne (reviewable requestId (uid loggedUser)) d of
        None \<Rightarrow> (d, Inl REQUEST_NOT_FOUND)
      | Some connectionRequest \<Rightarrow>
          (let sender = findById d (fromUserId connectionRequest);
               saved = connectionRequest\<lparr>status := st, updatedAt := now\<rparr>;
               d' = d\<lparr>requests := updateOne (rid connectionRequest) st now (requests d)\<rparr>
           in case sender of
                None \<Rightarrow> (d', Inl TypeError)
              | Some u \<Rightarrow>
                  (d', Inr \<lparr>msg = Some (Reviewed (path loggedUser ''firstName'') st
                                                  (path u ''firstName'')),
                            data = saved, statusEcho = st,
                            fromUser = names u, toUser = names loggedUser\<rparr>)))"

subsection \<open>The routes behind the middleware, and sequences of calls\<close>

definition sendRoute ::
  "db \<Rightarrow> objectId \<Rightarrow> string \<Rightarrow> objectId \<Rightarrow> timestamp \<Rightarrow> db \<times> (error + reply)" where
  "sendRoute d me st toId now =
     (case userAuth d me of Inl e \<Rightarrow> (d, Inl e) | Inr u \<Rightarrow> send d u st toId now)"

definition reviewRoute ::
  "db \<Rightarrow> objectId \<Rightarrow> string \<Rightarrow> objectId \<Rightarrow> timestamp \<Rightarrow> db \<times> (error + reply)" where
  "reviewRoute d me st requestId now =
     (case userAuth d me of Inl e \<Rightarrow> (d, Inl e) | Inr u \<Rightarrow> review d u st requestId now)"

text \<open>The two writing calls of the matching routes, and the store after a sequence of them.\<close>

datatype call =
    Send objectId string objectId timestamp
  | Review objectId string objectId timestamp

fun exec :: "db \<Rightarrow> call \<Rightarrow> db" where
  "exec d (Send me st toId now) = fst (sendRoute d me st toId now)"
| "exec d (Review me st requestId now) = fst (reviewRoute d me st requestId now)"

definition run :: "db \<Rightarrow> call list \<Rightarrow> db" where
  "run d cs = foldl exec d cs"

section \<open>The user routes\<close>

subsection \<open>Projections\<close>

text \<open>The fields that are safe to return (the constant keeps the name it has in the source).\<close>

definition USER_SAVE_DATA :: "string list" where
  "USER_SAVE_DATA = [''firstName'', ''lastName'', ''age'', ''gender'', ''image'', ''about'']"

text \<open>
  \<^verbatim>\<open>select(paths)\<close> and the field list of \<^verbatim>\<open>populate\<close>: the document keeps its \<^verbatim>\<open>_id\<close>
  and the named paths only.
\<close>

definition select :: "string list \<Rightarrow> user \<Rightarrow> user" where
  "select fs u = \<lparr>uid = uid u, path = (\<lambda>k. if k \<in> set fs then path u k else JUndefined)\<rparr>"

text \<open>
  \<^verbatim>\<open>populate(ref, paths)\<close> replaces a reference by the projected user document, or by
  \<^verbatim>\<open>null\<close> when no user has that \<^verbatim>\<open>_id\<close>.
\<close>

definition populate :: "db \<Rightarrow> string list \<Rightarrow> objectId \<Rightarrow> user option" where
  "populate d fs i = map_option (select fs) (findById d i)"

subsection \<open>The feed\<close>

text \<open>
  \<^verbatim>\<open>parseInt(q) || dflt\<close>, on the result of \<^verbatim>\<open>parseInt\<close> (\<open>None\<close> is \<^verbatim>\<open>NaN\<close>, the result
  for an absent or non-numeric query parameter): \<^verbatim>\<open>NaN\<close> and \<^verbatim>\<open>0\<close> are falsy.
\<close>

definition orDefault :: "int option \<Rightarrow> int \<Rightarrow> int" where
  "orDefault q dflt = (case q of None \<Rightarrow> dflt | Some n \<Rightarrow> if n = 0 then dflt else n)"

definition feedPage :: "int option \<Rightarrow> int" where
  "feedPage pageQ = orDefault pageQ 1"

definition feedLimit :: "int option \<Rightarrow> int" where
  "feedLimit limitQ = (let limit = orDefault limitQ 10 in if limit > 50 then 50 else limit)"

text \<open>
  \<^verbatim>\<open>.skip(skip).limit(limit)\<close> as the store runs it: a negative skip is refused, a limit
  of \<^verbatim>\<open>0\<close> is no limit, and a negative limit asks for its absolute value.
\<close>

definition cursor :: "int \<Rightarrow> int \<Rightarrow> 'a list \<Rightarrow> error + 'a list" where
  "cursor sk lim xs =
     (if sk < 0 then Inl SkipNegative
      else Inr (let ys = drop (nat sk) xs in if lim = 0 then ys else take (nat \<bar>lim\<bar>) ys))"

definition involves :: "objectId \<Rightarrow> connectionRequest \<Rightarrow> bool" where
  "involves me r \<longleftrightarrow> fromUserId r = me \<or> toUserId r = me"

text \<open>
  The set built by the \<^verbatim>\<open>forEach\<close> of the feed: both ends of every request that involves
  the logged-in user.
\<close>

definition hideUserFromFeed :: "db \<Rightarrow> objectId \<Rightarrow> objectId set" where
  "hideUserFromFeed d me =
     fold (\<lambda>r S. insert (toUserId r) (insert (fromUserId r) S)) (findAll (involves me) d) {}"

record feedReply =
  feed :: "user list"
  pageEcho :: int
  limitEcho :: int
  total :: nat

text \<open>The handler of \<^verbatim>\<open>GET /user/feed\<close>.\<close>

definition getFeed :: "db \<Rightarrow> user \<Rightarrow> int option \<Rightarrow> int option \<Rightarrow> error + feedReply" where
  "getFeed d loggedUser pageQ limitQ =
     (let page = feedPage pageQ;
          limit = feedLimit limitQ;
          skip = (page - 1) * limit;
          hide = hideUserFromFeed d (uid loggedUser);
          found = filter (\<lambda>u. uid u \<noteq> uid loggedUser \<and> uid u \<notin> hide) (users d)
      in case cursor skip limit (map (select USER_SAVE_DATA) found) of
           Inl e \<Rightarrow> Inl e
         | Inr page_of_users \<Rightarrow>
             Inr \<lparr>feed = page_of_users, pageEcho = page, limitEcho = limit,
                  total = length page_of_users\<rparr>)"


subsection \<open>Pending requests and connections\<close>








subsection \<open>The reading routes as calls\<close>





subsection \<open>The profile update\<close>

text \<open>A JSON request body: the keys of the object with their values.\<close>

type_synonym body = "(string \<times> jsval) list"

definition field :: "body \<Rightarrow> string \<Rightarrow> jsval" where
  "field b k = (case map_of b k of None \<Rightarrow> JUndefined | Some v \<Rightarrow> v)"

fun truthy :: "jsval \<Rightarrow> bool" where
  "truthy JUndefined = False"
| "truthy JNull = False"
| "truthy (JBool b) = b"
| "truthy (JNum n) = (n \<noteq> 0)"
| "truthy (JStr s) = (s \<noteq> [])"

text \<open>
  The number a value is compared as (\<open>None\<close> is \<^verbatim>\<open>NaN\<close>). The conversion of a string to
  a number is JavaScript's own and is taken as the parameter \<open>strNum\<close>.
\<close>

fun toNumber :: "(string \<Rightarrow> int option) \<Rightarrow> jsval \<Rightarrow> int option" where
  "toNumber strNum JUndefined = None"
| "toNumber strNum JNull = Some 0"
| "toNumber strNum (JBool b) = Some (if b then 1 else 0)"
| "toNumber strNum (JNum n) = Some n"
| "toNumber strNum (JStr s) = strNum s"

definition jsLess :: "int option \<Rightarrow> int \<Rightarrow> bool" where
  "jsLess a n = (case a of None \<Rightarrow> False | Some m \<Rightarrow> m < n)"

definition jsGreater :: "int option \<Rightarrow> int \<Rightarrow> bool" where
  "jsGreater a n = (case a of None \<Rightarrow> False | Some m \<Rightarrow> m > n)"

text \<open>\<^verbatim>\<open>toLowerCase\<close> on the letters A to Z.\<close>

definition toLowerCase :: "string \<Rightarrow> string" where
  "toLowerCase s =
     map (\<lambda>c. let n = (of_char c :: nat) in if 65 \<le> n \<and> n \<le> 90 then char_of (n + 32) else c) s"

definition ALLOWED_UPDATES :: "string list" where
  "ALLOWED_UPDATES = [''firstName'', ''lastName'', ''gender'', ''image'', ''age'', ''about'']"

text \<open>
  \<^verbatim>\<open>validUpdateData\<close> of \<^verbatim>\<open>utilis/validation.js\<close>: it throws on a failed field check and
  otherwise returns \<^verbatim>\<open>isEditAllowed\<close>. \<^verbatim>\<open>gender.toLowerCase()\<close> throws when the truthy
  \<^verbatim>\<open>gender\<close> is not a string.
\<close>

definition validUpdateData :: "(string \<Rightarrow> int option) \<Rightarrow> body \<Rightarrow> error + bool" where
  "validUpdateData strNum b =
     (let firstName = field b ''firstName'';
          lastName = field b ''lastName'';
          gender = field b ''gender'';
          age = toNumber strNum (field b ''age'');
          isEditAllowed = list_all (\<lambda>key. key \<in> set ALLOWED_UPDATES) (map fst b)
      in if \<not> truthy firstName then Inl FirstNameRequired
         else if \<not> truthy lastName then Inl LastNameRequired
         else if \<not> truthy gender then Inl GenderRequired
         else case gender of
           JStr g \<Rightarrow>
             if toLowerCase g \<notin> set [''male'', ''female'', ''others''] then Inl GenderInvalid
             else if jsLess age 18 \<or> jsGreater age 80 then Inl AgeOutOfRange
             else Inr isEditAllowed
         | _ \<Rightarrow> Inl TypeError)"

text \<open>
  The \<^verbatim>\<open>forEach\<close> of the profile update: \<^verbatim>\<open>loggedUser[key] = updateUser[key]\<close> for every
  key of the body.
\<close>

definition assignAll :: "body \<Rightarrow> user \<Rightarrow> user" where
  "assignAll b u = fold (\<lambda>key v. v\<lparr>path := (path v)(key := field b key)\<rparr>) (map fst b) u"

fun replaceUser :: "user \<Rightarrow> user list \<Rightarrow> user list" where
  "replaceUser v [] = []"
| "replaceUser v (u # us) = (if uid u = uid v then v # us else u # replaceUser v us)"

text \<open>
  The handler of \<^verbatim>\<open>PATCH /user/:id\<close>. What \<^verbatim>\<open>loggedUser.save()\<close> does with the assigned
  document (the casts, setters and validators of the user schema, which call
  \<^verbatim>\<open>validator.js\<close>) is the parameter \<open>schemaSave\<close>: \<open>None\<close> when the schema refuses the
  document, otherwise the document that is stored and returned.
\<close>

definition patchUser ::
  "(string \<Rightarrow> int option) \<Rightarrow> (user \<Rightarrow> user option) \<Rightarrow> db \<Rightarrow> user \<Rightarrow> body \<Rightarrow> db \<times> (error + user)" where
  "patchUser strNum schemaSave d loggedUser b =
     (case validUpdateData strNum b of
        Inl e \<Rightarrow> (d, Inl e)
      | Inr ok \<Rightarrow>
          if \<not> ok then (d, Inl InvalidUpdateData)
          else (case schemaSave (assignAll b loggedUser) of
                  None \<Rightarrow> (d, Inl ValidationError)
                | Some saved \<Rightarrow> (d\<lparr>users := replaceUser saved (users d)\<rparr>, Inr saved)))"

section \<open>Auxiliary notions and example stores\<close>

text \<open>Some request of the store goes from \<open>a\<close> to \<open>b\<close>.\<close>

definition linked :: "db \<Rightarrow> objectId \<Rightarrow> objectId \<Rightarrow> bool" where
  "linked d a b \<longleftrightarrow> (a, b) \<in> (\<lambda>r. (fromUserId r, toUserId r)) ` set (requests d)"

text \<open>
  What the store itself guarantees: \<^verbatim>\<open>_id\<close> is unique within a collection. And what the
  routes keep true, as no route deletes a user: every request refers to users of the
  store.
\<close>

definition uniqueIds :: "db \<Rightarrow> bool" where
  "uniqueIds d \<longleftrightarrow> distinct (map rid (requests d)) \<and> distinct (map uid (users d))"

definition refsResolve :: "db \<Rightarrow> bool" where
  "refsResolve d \<longleftrightarrow>
     list_all (\<lambda>r. fromUserId r \<in> uid ` set (users d) \<and> toUserId r \<in> uid ` set (users d))
       (requests d)"

text \<open>
  What the spec states of every stored request and the check of \<^verbatim>\<open>save()\<close> keeps true: no
  request goes from a user to herself.
\<close>

definition noSelfRequest :: "db \<Rightarrow> bool" where
  "noSelfRequest d \<longleftrightarrow> list_all (\<lambda>r. fromUserId r \<noteq> toUserId r) (requests d)"


text \<open>The other end of a request, seen from \<open>me\<close>.\<close>

definition otherEnd :: "objectId \<Rightarrow> connectionRequest \<Rightarrow> objectId" where
  "otherEnd me r = (if fromUserId r = me then toUserId r else fromUserId r)"

text \<open>Three users and stores built from them, for the concrete runs below.\<close>

definition person :: "objectId \<Rightarrow> string \<Rightarrow> string \<Rightarrow> int \<Rightarrow> user" where
  "person i given family years =
     \<lparr>uid = i,
      path = (\<lambda>k. JUndefined)(''firstName'' := JStr given, ''lastName'' := JStr family,
               ''age'' := JNum years, ''password'' := JStr ''hash'')\<rparr>"

definition asha :: user where "asha = person 1 ''Asha'' ''Rao'' 30"
definition bela :: user where "bela = person 2 ''Bela'' ''Kiss'' 41"
definition chen :: user where "chen = person 3 ''Chen'' ''Li'' 25"

definition db0 :: db where
  "db0 = \<lparr>users = [asha, bela, chen], requests = []\<rparr>"

text \<open>
  A store in which Asha has sent a like to Bela that is still pending, and in which Asha
  has accepted a like from Chen.
\<close>

definition db1 :: db where
  "db1 = \<lparr>users = [asha, bela, chen],
          requests =
            [\<lparr>rid = 1, fromUserId = 1, toUserId = 2, status = ''like'', createdAt = 5, updatedAt = 5\<rparr>,
             \<lparr>rid = 2, fromUserId = 3, toUserId = 1, status = ''accept'', createdAt = 6, updatedAt = 8\<rparr>]\<rparr>"

text \<open>The store \<open>db1\<close> with an Asha who is a year older.\<close>

definition db1_older :: db where
  "db1_older = db1\<lparr>users := [person 1 ''Asha'' ''Rao'' 31, bela, chen]\<rparr>"

text \<open>
  Two request bodies for the profile update: one with allowed keys only, and the same
  body with the key \<^verbatim>\<open>emailId\<close> added. For the concrete runs no string is read as a
  number and the user schema accepts every document as it is.
\<close>

definition patchAllowed :: body where
  "patchAllowed =
     [(''firstName'', JStr ''Asha''), (''lastName'', JStr ''Rao''), (''gender'', JStr ''Female''),
      (''age'', JNum 31), (''about'', JStr ''Hiker'')]"

definition patchWithEmail :: body where
  "patchWithEmail = patchAllowed @ [(''emailId'', JStr ''asha@example.org'')]"

definition noStringIsNumber :: "string \<Rightarrow> int option" where
  "noStringIsNumber s = None"

definition schemaAcceptsAll :: "user \<Rightarrow> user option" where
  "schemaAcceptsAll u = Some u"

section \<open>Properties of the queries and of the stored requests\<close>

lemmas example_defs =
  db0_def db1_def asha_def bela_def chen_def person_def

lemmas route_defs =
  run_def sendRoute_def reviewRoute_def userAuth_def findById_def send_def review_def
  allowedStatus_def isAllowedStatus_def findOne_def existingRequest_def reviewable_def
  canSend_def newObjectId_def names_def Let_def

lemma findById_Some_uid: "findById d i = Some u \<Longrightarrow> uid u = i \<and> u \<in> set (users d)"
  by (auto simp: findById_def find_Some_iff)

lemma findById_None_iff: "findById d i = None \<longleftrightarrow> i \<notin> uid ` set (users d)"
  by (auto simp: findById_def find_None_iff)

lemma findOne_None_iff: "findOne P d = None \<longleftrightarrow> (\<forall>r \<in> set (requests d). \<not> P r)"
  by (auto simp: findOne_def find_None_iff)

lemma findOne_Some_D: "findOne P d = Some r \<Longrightarrow> P r \<and> r \<in> set (requests d)"
  by (auto simp: findOne_def find_Some_iff)

lemma updateOne_map_rid: "map rid (updateOne i s t rs) = map rid rs"
  by (induction rs) auto

lemma updateOne_map_from: "map fromUserId (updateOne i s t rs) = map fromUserId rs"
  by (induction rs) auto

lemma updateOne_map_to: "map toUserId (updateOne i s t rs) = map toUserId rs"
  by (induction rs) auto

lemma updateOne_map_created: "map createdAt (updateOne i s t rs) = map createdAt rs"
  by (induction rs) auto

lemma updateOne_map_pair:
  "map (\<lambda>r. (fromUserId r, toUserId r)) (updateOne i s t rs) =
   map (\<lambda>r. (fromUserId r, toUserId r)) rs"
  by (induction rs) auto

lemma updateOne_image_pair:
  "(\<lambda>r. (fromUserId r, toUserId r)) ` set (updateOne i s t rs) =
   (\<lambda>r. (fromUserId r, toUserId r)) ` set rs"
  using updateOne_map_pair[of i s t rs] by (metis set_map)

lemma updateOne_nth_other:
  "j < length rs \<Longrightarrow> rid (rs ! j) \<noteq> i \<Longrightarrow> updateOne i s t rs ! j = rs ! j"
proof (induction rs arbitrary: j)
  case Nil
  then show ?case by simp
next
  case (Cons r rs)
  then show ?case by (cases j) auto
qed

lemma unique_rid:
  "uniqueIds d \<Longrightarrow> q \<in> set (requests d) \<Longrightarrow> r \<in> set (requests d) \<Longrightarrow> rid q = rid r \<Longrightarrow> q = r"
  unfolding uniqueIds_def by (metis distinct_map inj_on_eq_iff)

subsection \<open>What the writing calls keep\<close>

lemma send_users: "users (fst (send d u st toId now)) = users d"
  by (simp add: send_def Let_def split: option.splits)

lemma review_users: "users (fst (review d u st i now)) = users d"
  by (simp add: review_def Let_def split: option.splits)

lemma exec_users: "users (exec d c) = users d"
  by (cases c)
    (simp_all add: sendRoute_def reviewRoute_def send_users review_users split: sum.splits)

lemma run_users: "users (run d cs) = users d"
  unfolding run_def by (induction cs arbitrary: d) (simp_all add: exec_users)

lemma send_linked: "linked d a b \<Longrightarrow> linked (fst (send d u st toId now)) a b"
  by (auto simp add: send_def Let_def linked_def split: option.splits)

lemma review_linked: "linked d a b \<Longrightarrow> linked (fst (review d u st i now)) a b"
  by (auto simp add: review_def Let_def linked_def updateOne_image_pair split: option.splits)

lemma exec_linked: "linked d a b \<Longrightarrow> linked (exec d c) a b"
  by (cases c)
    (simp_all add: sendRoute_def reviewRoute_def send_linked review_linked split: sum.splits)

lemma run_linked: "linked d a b \<Longrightarrow> linked (run d cs) a b"
  unfolding run_def by (induction cs arbitrary: d) (simp_all add: exec_linked)

subsection \<open>Duplicate requests\<close>

lemma sendRoute_success_D:
  assumes "sendRoute d a st b now = (d', Inr r)"
  shows "a \<in> uid ` set (users d') \<and> b \<in> uid ` set (users d') \<and> linked d' a b"
  using assms
  by (auto simp: sendRoute_def userAuth_def send_def Let_def linked_def
        findById_None_iff dest!: findById_Some_uid split: option.splits if_splits)

lemma sendRoute_duplicate:
  assumes "a \<in> uid ` set (users d)" "b \<in> uid ` set (users d)" "linked d a b \<or> linked d b a"
    and "x \<in> set allowedStatus"
  shows "sendRoute d a x b t = (d, Inl DUPLICATE_REQUEST)"
proof -
  obtain u where u: "findById d a = Some u" using assms(1) findById_None_iff by fastforce
  obtain v where v: "findById d b = Some v" using assms(2) findById_None_iff by fastforce
  have ua: "uid u = a" using u findById_Some_uid by blast
  have "\<exists>r \<in> set (requests d). existingRequest a b r"
    using assms(3) by (auto simp: linked_def existingRequest_def)
  then obtain q where "findOne (existingRequest a b) d = Some q"
    using findOne_None_iff by fastforce
  then show ?thesis using u v ua assms(4)
    by (simp add: sendRoute_def userAuth_def send_def)
qed

text \<open>
  Claim C1. Once a send from \<open>a\<close> to \<open>b\<close> has succeeded, every later send for the same
  pair of users, in either direction and with either allowed action, answers
  \<^verbatim>\<open>DUPLICATE_REQUEST\<close> and leaves the store as it was. "Later" is after any sequence
  \<open>cs\<close> of send and review calls, by any users, successful or not.
\<close>

theorem send_duplicate_after_success:
  assumes "sendRoute d a st b now = (d', Inr r)" and "x \<in> set allowedStatus"
  shows "sendRoute (run d' cs) a x b t = (run d' cs, Inl DUPLICATE_REQUEST)
       \<and> sendRoute (run d' cs) b x a t = (run d' cs, Inl DUPLICATE_REQUEST)"
proof -
  from sendRoute_success_D[OF assms(1)]
  have "a \<in> uid ` set (users (run d' cs))" "b \<in> uid ` set (users (run d' cs))"
    "linked (run d' cs) a b"
    by (simp_all add: run_users run_linked)
  then show ?thesis using assms(2) by (simp add: sendRoute_duplicate)
qed

text \<open>
  The theorem at work: Asha likes Bela, Bela accepts, and then neither a pass from Asha
  nor a pass from Bela is taken.
\<close>

theorem send_duplicate_after_success_witness:
  "sendRoute db0 1 ''like'' 2 5 =
     (db0\<lparr>requests := [\<lparr>rid = 1, fromUserId = 1, toUserId = 2, status = ''like'',
                           createdAt = 5, updatedAt = 5\<rparr>]\<rparr>,
      Inr \<lparr>msg = Some (Interested (JStr ''Asha'') (JStr ''Bela'')),
           data = \<lparr>rid = 1, fromUserId = 1, toUserId = 2, status = ''like'',
                    createdAt = 5, updatedAt = 5\<rparr>,
           statusEcho = ''like'',
           fromUser = (JStr ''Asha'', JStr ''Rao''), toUser = (JStr ''Bela'', JStr ''Kiss'')\<rparr>)
   \<and> ''pass'' \<in> set allowedStatus
   \<and> sendRoute (run (db0\<lparr>requests := [\<lparr>rid = 1, fromUserId = 1, toUserId = 2,
                status = ''like'', createdAt = 5, updatedAt = 5\<rparr>]\<rparr>) [Review 2 ''accept'' 1 7])
        1 ''pass'' 2 9 =
       (run (db0\<lparr>requests := [\<lparr>rid = 1, fromUserId = 1, toUserId = 2,
                status = ''like'', createdAt = 5, updatedAt = 5\<rparr>]\<rparr>) [Review 2 ''accept'' 1 7],
        Inl DUPLICATE_REQUEST)
   \<and> sendRoute (run (db0\<lparr>requests := [\<lparr>rid = 1, fromUserId = 1, toUserId = 2,
                status = ''like'', createdAt = 5, updatedAt = 5\<rparr>]\<rparr>) [Review 2 ''accept'' 1 7])
        2 ''pass'' 1 9 =
       (run (db0\<lparr>requests := [\<lparr>rid = 1, fromUserId = 1, toUserId = 2,
                status = ''like'', createdAt = 5, updatedAt = 5\<rparr>]\<rparr>) [Review 2 ''accept'' 1 7],
        Inl DUPLICATE_REQUEST)"
proof -
  have h1: "sendRoute db0 1 ''like'' 2 5 =
     (db0\<lparr>requests := [\<lparr>rid = 1, fromUserId = 1, toUserId = 2, status = ''like'',
                           createdAt = 5, updatedAt = 5\<rparr>]\<rparr>,
      Inr \<lparr>msg = Some (Interested (JStr ''Asha'') (JStr ''Bela'')),
           data = \<lparr>rid = 1, fromUserId = 1, toUserId = 2, status = ''like'',
                    createdAt = 5, updatedAt = 5\<rparr>,
           statusEcho = ''like'',
           fromUser = (JStr ''Asha'', JStr ''Rao''), toUser = (JStr ''Bela'', JStr ''Kiss'')\<rparr>)"
    by (simp add: route_defs example_defs)
  have h2: "''pass'' \<in> set allowedStatus" by (simp add: allowedStatus_def)
  from send_duplicate_after_success[OF h1 h2, of "[Review 2 ''accept'' 1 7]" 9] h1 h2
  show ?thesis by blast
qed

subsection \<open>Reviewing\<close>

lemma review_not_found_iff:
  assumes "st \<in> set isAllowedStatus"
  shows "(review d u st i now = (d, Inl REQUEST_NOT_FOUND))
           = (\<not> (\<exists>r \<in> set (requests d). rid r = i \<and> toUserId r = uid u \<and> status r = ''like''))"
proof (cases "findOne (reviewable i (uid u)) d")
  case None
  have "review d u st i now = (d, Inl REQUEST_NOT_FOUND)"
    using assms None by (simp add: review_def)
  moreover have "\<not> (\<exists>r \<in> set (requests d). rid r = i \<and> toUserId r = uid u \<and> status r = ''like'')"
    using None unfolding findOne_None_iff reviewable_def by blast
  ultimately show ?thesis by simp
next
  case (Some q)
  from findOne_Some_D[OF Some] have "q \<in> set (requests d)" "reviewable i (uid u) q" by simp_all
  then have "\<exists>r \<in> set (requests d). rid r = i \<and> toUserId r = uid u \<and> status r = ''like''"
    by (auto simp: reviewable_def)
  then show ?thesis using assms Some
    by (simp add: review_def Let_def split: option.splits)
qed

lemma review_not_found_record:
  assumes "st \<in> set isAllowedStatus" "uniqueIds d" "r \<in> set (requests d)"
    and "toUserId r \<noteq> uid u \<or> status r \<noteq> ''like''"
  shows "review d u st (rid r) now = (d, Inl REQUEST_NOT_FOUND)"
proof -
  have "\<not> (\<exists>q \<in> set (requests d). rid q = rid r \<and> toUserId q = uid u \<and> status q = ''like'')"
    using assms(2-4) unique_rid by blast
  then show ?thesis using review_not_found_iff[OF assms(1)] by blast
qed

subsection \<open>What a successful review changes and what it answers\<close>

lemma updateOne_list_update:
  "i \<in> rid ` set rs \<Longrightarrow>
   \<exists>j < length rs. rid (rs ! j) = i \<and> updateOne i s t rs = rs[j := (rs ! j)\<lparr>status := s, updatedAt := t\<rparr>]"
proof (induction rs)
  case Nil
  then show ?case by simp
next
  case (Cons r rs)
  show ?case
  proof (cases "rid r = i")
    case True
    then have "0 < length (r # rs) \<and> rid ((r # rs) ! 0) = i
        \<and> updateOne i s t (r # rs) = (r # rs)[0 := ((r # rs) ! 0)\<lparr>status := s, updatedAt := t\<rparr>]"
      by simp
    then show ?thesis by blast
  next
    case False
    with Cons.prems have "i \<in> rid ` set rs" by auto
    from Cons.IH[OF this] obtain j where j: "j < length rs" "rid (rs ! j) = i"
      "updateOne i s t rs = rs[j := (rs ! j)\<lparr>status := s, updatedAt := t\<rparr>]" by blast
    then have "Suc j < length (r # rs) \<and> rid ((r # rs) ! Suc j) = i
        \<and> updateOne i s t (r # rs) = (r # rs)[Suc j := ((r # rs) ! Suc j)\<lparr>status := s, updatedAt := t\<rparr>]"
      using False by simp
    then show ?thesis by blast
  qed
qed

lemma updateOne_set_unique:
  "distinct (map rid rs) \<Longrightarrow> r \<in> set rs \<Longrightarrow>
   set (updateOne (rid r) s t rs) = insert (r\<lparr>status := s, updatedAt := t\<rparr>) (set rs - {r})"
proof (induction rs)
  case Nil
  then show ?case by simp
next
  case (Cons a rs)
  show ?case
  proof (cases "rid a = rid r")
    case True
    with Cons.prems have "a = r" by (auto simp: image_iff)
    with Cons.prems show ?thesis by auto
  next
    case False
    with Cons show ?thesis by auto
  qed
qed

text \<open>The shape of every review that answers with success.\<close>

lemma review_success_D:
  assumes "review d u st i now = (d', Inr rep)"
  shows "\<exists>q s. findOne (reviewable i (uid u)) d = Some q \<and> findById d (fromUserId q) = Some s
           \<and> st \<in> set isAllowedStatus
           \<and> d' = d\<lparr>requests := updateOne i st now (requests d)\<rparr>
           \<and> rep = \<lparr>msg = Some (Reviewed (path u ''firstName'') st (path s ''firstName'')),
                    data = q\<lparr>status := st, updatedAt := now\<rparr>, statusEcho = st,
                    fromUser = names s, toUser = names u\<rparr>"
proof -
  from assms have st: "st \<in> set isAllowedStatus"
    by (auto simp: review_def split: if_splits)
  from assms st obtain q where q: "findOne (reviewable i (uid u)) d = Some q"
    by (cases "findOne (reviewable i (uid u)) d") (auto simp: review_def)
  then have qi: "rid q = i" using findOne_Some_D reviewable_def by blast
  from assms st q obtain s where s: "findById d (fromUserId q) = Some s"
    by (cases "findById d (fromUserId q)") (auto simp: review_def Let_def)
  from assms st q s qi show ?thesis
    by (auto simp: review_def Let_def)
qed

text \<open>
  Claim C10. A review that answers with success leaves the users as they were and changes
  one stored request, at one position of the collection: that request has the reviewed
  \<^verbatim>\<open>_id\<close>, and only its \<^verbatim>\<open>status\<close> and \<^verbatim>\<open>updatedAt\<close> are assigned. No request is added or
  removed, every request keeps its \<^verbatim>\<open>_id\<close>, \<^verbatim>\<open>fromUserId\<close>, \<^verbatim>\<open>toUserId\<close> and
  \<^verbatim>\<open>createdAt\<close>, and every request with another \<^verbatim>\<open>_id\<close> is unchanged.
\<close>

theorem review_changes_one_request:
  assumes "review d u st i now = (d', Inr rep)"
  shows "users d' = users d
       \<and> (\<exists>j < length (requests d). rid (requests d ! j) = i
            \<and> requests d' = (requests d)[j := (requests d ! j)\<lparr>status := st, updatedAt := now\<rparr>])
       \<and> map rid (requests d') = map rid (requests d)
       \<and> map fromUserId (requests d') = map fromUserId (requests d)
       \<and> map toUserId (requests d') = map toUserId (requests d)
       \<and> map createdAt (requests d') = map createdAt (requests d)
       \<and> (\<forall>j < length (requests d). rid (requests d ! j) \<noteq> i
            \<longrightarrow> requests d' ! j = requests d ! j)"
proof -
  from review_success_D[OF assms] obtain q where
    q: "findOne (reviewable i (uid u)) d = Some q"
    and d': "d' = d\<lparr>requests := updateOne i st now (requests d)\<rparr>" by blast
  from findOne_Some_D[OF q] have "i \<in> rid ` set (requests d)"
    by (auto simp: reviewable_def)
  from updateOne_list_update[OF this, of st now] d'
  have "\<exists>j < length (requests d). rid (requests d ! j) = i
            \<and> requests d' = (requests d)[j := (requests d ! j)\<lparr>status := st, updatedAt := now\<rparr>]"
    by simp
  then show ?thesis using d'
    by (simp add: updateOne_map_rid updateOne_map_from updateOne_map_to updateOne_map_created
        updateOne_nth_other)
qed

text \<open>The theorem at work: Bela accepts request 1 of \<open>db1\<close>; request 2 stays as it is.\<close>

theorem review_changes_one_request_witness:
  "review db1 bela ''accept'' 1 9 =
     (db1\<lparr>requests :=
        [\<lparr>rid = 1, fromUserId = 1, toUserId = 2, status = ''accept'', createdAt = 5, updatedAt = 9\<rparr>,
         \<lparr>rid = 2, fromUserId = 3, toUserId = 1, status = ''accept'', createdAt = 6, updatedAt = 8\<rparr>]\<rparr>,
      Inr \<lparr>msg = Some (Reviewed (JStr ''Bela'') ''accept'' (JStr ''Asha'')),
           data = \<lparr>rid = 1, fromUserId = 1, toUserId = 2, status = ''accept'',
                    createdAt = 5, updatedAt = 9\<rparr>,
           statusEcho = ''accept'',
           fromUser = (JStr ''Asha'', JStr ''Rao''), toUser = (JStr ''Bela'', JStr ''Kiss'')\<rparr>)
   \<and> users (fst (review db1 bela ''accept'' 1 9)) = users db1
   \<and> map rid (requests (fst (review db1 bela ''accept'' 1 9))) = map rid (requests db1)
   \<and> map fromUserId (requests (fst (review db1 bela ''accept'' 1 9))) = map fromUserId (requests db1)
   \<and> map toUserId (requests (fst (review db1 bela ''accept'' 1 9))) = map toUserId (requests db1)
   \<and> map createdAt (requests (fst (review db1 bela ''accept'' 1 9))) = map createdAt (requests db1)
   \<and> requests (fst (review db1 bela ''accept'' 1 9)) ! 1 = requests db1 ! 1"
proof -
  let ?D = "db1\<lparr>requests :=
        [\<lparr>rid = 1, fromUserId = 1, toUserId = 2, status = ''accept'', createdAt = 5, updatedAt = 9\<rparr>,
         \<lparr>rid = 2, fromUserId = 3, toUserId = 1, status = ''accept'', createdAt = 6, updatedAt = 8\<rparr>]\<rparr>"
  let ?R = "\<lparr>msg = Some (Reviewed (JStr ''Bela'') ''accept'' (JStr ''Asha'')),
           data = \<lparr>rid = 1, fromUserId = 1, toUserId = 2, status = ''accept'',
                    createdAt = 5, updatedAt = 9\<rparr>,
           statusEcho = ''accept'',
           fromUser = (JStr ''Asha'', JStr ''Rao''), toUser = (JStr ''Bela'', JStr ''Kiss'')\<rparr>"
  have h: "review db1 bela ''accept'' 1 9 = (?D, Inr ?R)"
    by (simp add: route_defs example_defs)
  have j: "(1::nat) < length (requests db1)" "rid (requests db1 ! 1) \<noteq> 1"
    by (simp_all add: db1_def)
  from review_changes_one_request[OF h] j
  have "users ?D = users db1
      \<and> map rid (requests ?D) = map rid (requests db1)
      \<and> map fromUserId (requests ?D) = map fromUserId (requests db1)
      \<and> map toUserId (requests ?D) = map toUserId (requests db1)
      \<and> map createdAt (requests ?D) = map createdAt (requests db1)
      \<and> requests ?D ! 1 = requests db1 ! 1"
    by blast
  then show ?thesis unfolding h fst_conv by blast
qed

text \<open>
  Claim C7, as amended. In a store with unique ids, a review that answers with success
  found a request \<open>r\<close> with the given id, the reviewer as recipient and the status like;
  the stored request is replaced by \<open>r\<close> with its \<^verbatim>\<open>status\<close> set to the decision and its
  \<^verbatim>\<open>updatedAt\<close> set to the time of the call; and the answer holds that updated request, the
  decision, and the \<^verbatim>\<open>firstName\<close> and \<^verbatim>\<open>lastName\<close> of the sender (\<^verbatim>\<open>fromUser\<close>) and of the
  reviewer (\<^verbatim>\<open>toUser\<close>), and nothing else of either user.
\<close>

theorem review_success_reply:
  assumes "review d u st i now = (d', Inr rep)" and "uniqueIds d"
  shows "\<exists>r s. r \<in> set (requests d) \<and> rid r = i \<and> toUserId r = uid u \<and> status r = ''like''
           \<and> findById d (fromUserId r) = Some s
           \<and> st \<in> set isAllowedStatus
           \<and> set (requests d') = insert (r\<lparr>status := st, updatedAt := now\<rparr>) (set (requests d) - {r})
           \<and> rep = \<lparr>msg = Some (Reviewed (path u ''firstName'') st (path s ''firstName'')),
                    data = r\<lparr>status := st, updatedAt := now\<rparr>, statusEcho = st,
                    fromUser = (path s ''firstName'', path s ''lastName''),
                    toUser = (path u ''firstName'', path u ''lastName'')\<rparr>"
proof -
  from review_success_D[OF assms(1)] obtain q s where
    q: "findOne (reviewable i (uid u)) d = Some q" and s: "findById d (fromUserId q) = Some s"
    and st: "st \<in> set isAllowedStatus"
    and d': "d' = d\<lparr>requests := updateOne i st now (requests d)\<rparr>"
    and rep: "rep = \<lparr>msg = Some (Reviewed (path u ''firstName'') st (path s ''firstName'')),
                    data = q\<lparr>status := st, updatedAt := now\<rparr>, statusEcho = st,
                    fromUser = names s, toUser = names u\<rparr>" by blast
  from findOne_Some_D[OF q] have qs: "q \<in> set (requests d)" and qr: "reviewable i (uid u) q"
    by simp_all
  from qr have qi: "rid q = i" "toUserId q = uid u" "status q = ''like''"
    by (simp_all add: reviewable_def)
  have "set (requests d') = insert (q\<lparr>status := st, updatedAt := now\<rparr>) (set (requests d) - {q})"
    using updateOne_set_unique[of "requests d" q st now] assms(2) qs qi(1) d'
    by (simp add: uniqueIds_def)
  with qs qi s st rep show ?thesis unfolding names_def by blast
qed

text \<open>The theorem at work: Bela accepts Asha's like in \<open>db1\<close>.\<close>

theorem review_success_reply_witness:
  "review db1 bela ''accept'' 1 9 =
     (db1\<lparr>requests :=
        [\<lparr>rid = 1, fromUserId = 1, toUserId = 2, status = ''accept'', createdAt = 5, updatedAt = 9\<rparr>,
         \<lparr>rid = 2, fromUserId = 3, toUserId = 1, status = ''accept'', createdAt = 6, updatedAt = 8\<rparr>]\<rparr>,
      Inr \<lparr>msg = Some (Reviewed (JStr ''Bela'') ''accept'' (JStr ''Asha'')),
           data = \<lparr>rid = 1, fromUserId = 1, toUserId = 2, status = ''accept'',
                    createdAt = 5, updatedAt = 9\<rparr>,
           statusEcho = ''accept'',
           fromUser = (JStr ''Asha'', JStr ''Rao''), toUser = (JStr ''Bela'', JStr ''Kiss'')\<rparr>)
   \<and> uniqueIds db1
   \<and> (\<exists>r s. r \<in> set (requests db1) \<and> rid r = 1 \<and> toUserId r = uid bela \<and> status r = ''like''
         \<and> findById db1 (fromUserId r) = Some s
         \<and> data \<lparr>msg = Some (Reviewed (JStr ''Bela'') ''accept'' (JStr ''Asha'')),
                  data = \<lparr>rid = 1, fromUserId = 1, toUserId = 2, status = ''accept'',
                           createdAt = 5, updatedAt = 9\<rparr>,
                  statusEcho = ''accept'',
                  fromUser = (JStr ''Asha'', JStr ''Rao''),
                  toUser = (JStr ''Bela'', JStr ''Kiss'')\<rparr> = r\<lparr>status := ''accept'', updatedAt := 9\<rparr>
         \<and> (JStr ''Asha'', JStr ''Rao'') = (path s ''firstName'', path s ''lastName''))"
proof -
  let ?D = "db1\<lparr>requests :=
        [\<lparr>rid = 1, fromUserId = 1, toUserId = 2, status = ''accept'', createdAt = 5, updatedAt = 9\<rparr>,
         \<lparr>rid = 2, fromUserId = 3, toUserId = 1, status = ''accept'', createdAt = 6, updatedAt = 8\<rparr>]\<rparr>"
  let ?R = "\<lparr>msg = Some (Reviewed (JStr ''Bela'') ''accept'' (JStr ''Asha'')),
           data = \<lparr>rid = 1, fromUserId = 1, toUserId = 2, status = ''accept'',
                    createdAt = 5, updatedAt = 9\<rparr>,
           statusEcho = ''accept'',
           fromUser = (JStr ''Asha'', JStr ''Rao''), toUser = (JStr ''Bela'', JStr ''Kiss'')\<rparr>"
  have h: "review db1 bela ''accept'' 1 9 = (?D, Inr ?R)"
    by (simp add: route_defs example_defs)
  have un: "uniqueIds db1" by (simp add: uniqueIds_def example_defs)
  from review_success_reply[OF h un] obtain r s where
    "r \<in> set (requests db1)" "rid r = 1" "toUserId r = uid bela" "status r = ''like''"
    "findById db1 (fromUserId r) = Some s"
    "?R = \<lparr>msg = Some (Reviewed (path bela ''firstName'') ''accept'' (path s ''firstName'')),
           data = r\<lparr>status := ''accept'', updatedAt := 9\<rparr>, statusEcho = ''accept'',
           fromUser = (path s ''firstName'', path s ''lastName''),
           toUser = (path bela ''firstName'', path bela ''lastName'')\<rparr>"
    by blast
  then have "\<exists>r s. r \<in> set (requests db1) \<and> rid r = 1 \<and> toUserId r = uid bela \<and> status r = ''like''
         \<and> findById db1 (fromUserId r) = Some s
         \<and> data ?R = r\<lparr>status := ''accept'', updatedAt := 9\<rparr>
         \<and> (JStr ''Asha'', JStr ''Rao'') = (path s ''firstName'', path s ''lastName'')"
    by (metis reply.select_convs(2) reply.select_convs(4))
  with h un show ?thesis by blast
qed

text \<open>
  Claim C7 as stated, "the return value contains the other participant's public profile
  projection", fails. The sender's projection holds her age, and the answer of the review
  is the same whether she is 30 or 31: the answer does not hold the projection.
\<close>

theorem review_reply_omits_projection:
  "snd (review db1 bela ''accept'' 1 9) =
     Inr \<lparr>msg = Some (Reviewed (JStr ''Bela'') ''accept'' (JStr ''Asha'')),
          data = \<lparr>rid = 1, fromUserId = 1, toUserId = 2, status = ''accept'',
                   createdAt = 5, updatedAt = 9\<rparr>,
          statusEcho = ''accept'',
          fromUser = (JStr ''Asha'', JStr ''Rao''), toUser = (JStr ''Bela'', JStr ''Kiss'')\<rparr>
   \<and> snd (review db1_older bela ''accept'' 1 9) = snd (review db1 bela ''accept'' 1 9)
   \<and> populate db1 USER_SAVE_DATA 1 = Some (select USER_SAVE_DATA asha)
   \<and> path (select USER_SAVE_DATA asha) ''age'' = JNum 30
   \<and> populate db1_older USER_SAVE_DATA 1 = Some (select USER_SAVE_DATA (person 1 ''Asha'' ''Rao'' 31))
   \<and> path (select USER_SAVE_DATA (person 1 ''Asha'' ''Rao'' 31)) ''age'' = JNum 31"
  by (simp add: route_defs example_defs db1_older_def populate_def select_def
      USER_SAVE_DATA_def)

subsection \<open>The feed\<close>

lemma fold_insert_both:
  "fold (\<lambda>r S. insert (toUserId r) (insert (fromUserId r) S)) rs S0 =
   S0 \<union> fromUserId ` set rs \<union> toUserId ` set rs"
  by (induction rs arbitrary: S0) auto

lemma hideUserFromFeed_eq:
  "hideUserFromFeed d me =
     fromUserId ` {r \<in> set (requests d). involves me r} \<union> toUserId ` {r \<in> set (requests d). involves me r}"
  by (simp add: hideUserFromFeed_def findAll_def fold_insert_both)

lemma hide_other_ends:
  "insert me (hideUserFromFeed d me) = insert me (otherEnd me ` {r \<in> set (requests d). involves me r})"
  unfolding hideUserFromFeed_eq
  by (auto simp: involves_def otherEnd_def image_iff)


lemma cursor_subseq: "cursor sk lim xs = Inr ys \<Longrightarrow> subseq ys xs"
proof -
  assume a: "cursor sk lim xs = Inr ys"
  have d: "subseq (drop (nat sk) xs) xs"
    by (metis append_take_drop_id list_emb_append2 subseq_order.order_refl)
  have t: "subseq (take (nat \<bar>lim\<bar>) (drop (nat sk) xs)) (drop (nat sk) xs)"
    by (metis append_take_drop_id list_emb_prefix subseq_order.order_refl)
  from a have "ys = drop (nat sk) xs \<or> ys = take (nat \<bar>lim\<bar>) (drop (nat sk) xs)"
    by (auto simp: cursor_def Let_def split: if_splits)
  with d t show ?thesis using subseq_order.order_trans by blast
qed

lemma getFeed_Inr_D:
  assumes "getFeed d u pageQ limitQ = Inr rep"
  shows "subseq (feed rep)
           (map (select USER_SAVE_DATA)
              (filter (\<lambda>v. uid v \<noteq> uid u \<and> uid v \<notin> hideUserFromFeed d (uid u)) (users d)))
       \<and> pageEcho rep = feedPage pageQ \<and> limitEcho rep = feedLimit limitQ
       \<and> total rep = length (feed rep)"
proof -
  let ?xs = "map (select USER_SAVE_DATA)
              (filter (\<lambda>v. uid v \<noteq> uid u \<and> uid v \<notin> hideUserFromFeed d (uid u)) (users d))"
  let ?sk = "(feedPage pageQ - 1) * feedLimit limitQ"
  from assms obtain ys where c: "cursor ?sk (feedLimit limitQ) ?xs = Inr ys"
    by (cases "cursor ?sk (feedLimit limitQ) ?xs") (simp_all add: getFeed_def Let_def)
  with assms have r: "rep = \<lparr>feed = ys, pageEcho = feedPage pageQ, limitEcho = feedLimit limitQ,
      total = length ys\<rparr>"
    by (simp add: getFeed_def Let_def)
  from cursor_subseq[OF c] r show ?thesis by simp
qed

text \<open>
  Claim C4. Whatever the page and the limit, every user of a returned feed is the
  projection of a stored user other than the logged-in user, and no stored request, of
  whatever status, has that user and the logged-in user as its two ends. Together with
  the logged-in user, the set that the route hides is the set of the other ends of all
  requests that involve the logged-in user.
\<close>

theorem feed_excludes_self_and_linked:
  assumes "getFeed d u pageQ limitQ = Inr rep"
  shows "(\<forall>x \<in> set (feed rep).
            uid x \<noteq> uid u
          \<and> \<not> (\<exists>r \<in> set (requests d).
                  (fromUserId r = uid u \<and> toUserId r = uid x)
                \<or> (fromUserId r = uid x \<and> toUserId r = uid u))
          \<and> (\<exists>v \<in> set (users d). x = select USER_SAVE_DATA v))
       \<and> insert (uid u) (hideUserFromFeed d (uid u))
           = insert (uid u) (otherEnd (uid u) ` {r \<in> set (requests d). involves (uid u) r})"
proof (intro conjI ballI)
  let ?cands = "filter (\<lambda>v. uid v \<noteq> uid u \<and> uid v \<notin> hideUserFromFeed d (uid u)) (users d)"
  from getFeed_Inr_D[OF assms] have emb: "subseq (feed rep) (map (select USER_SAVE_DATA) ?cands)"
    by simp
  fix x assume x: "x \<in> set (feed rep)"
  from list_emb_set[OF emb x] have "x \<in> set (map (select USER_SAVE_DATA) ?cands)" by blast
  then obtain v where v: "v \<in> set (users d)" "uid v \<noteq> uid u"
    "uid v \<notin> hideUserFromFeed d (uid u)" and xv: "x = select USER_SAVE_DATA v"
    by auto
  have ux: "uid x = uid v" using xv by (simp add: select_def)
  show "uid x \<noteq> uid u" using ux v(2) by simp
  show "\<exists>v \<in> set (users d). x = select USER_SAVE_DATA v" using v(1) xv by blast
  show "\<not> (\<exists>r \<in> set (requests d).
                  (fromUserId r = uid u \<and> toUserId r = uid x)
                \<or> (fromUserId r = uid x \<and> toUserId r = uid u))"
  proof
    assume "\<exists>r \<in> set (requests d).
                  (fromUserId r = uid u \<and> toUserId r = uid x)
                \<or> (fromUserId r = uid x \<and> toUserId r = uid u)"
    then obtain r where r: "r \<in> set (requests d)"
      "(fromUserId r = uid u \<and> toUserId r = uid v) \<or> (fromUserId r = uid v \<and> toUserId r = uid u)"
      unfolding ux by blast
    then have "r \<in> {r \<in> set (requests d). involves (uid u) r}"
      by (auto simp: involves_def)
    then have "fromUserId r \<in> hideUserFromFeed d (uid u)" "toUserId r \<in> hideUserFromFeed d (uid u)"
      unfolding hideUserFromFeed_eq by blast+
    with r(2) v(3) show False by metis
  qed
next
  show "insert (uid u) (hideUserFromFeed d (uid u))
           = insert (uid u) (otherEnd (uid u) ` {r \<in> set (requests d). involves (uid u) r})"
    by (rule hide_other_ends)
qed

lemmas feed_defs =
  getFeed_def feedPage_def feedLimit_def orDefault_def cursor_def hideUserFromFeed_def
  findAll_def involves_def select_def USER_SAVE_DATA_def Let_def

text \<open>
  The theorem at work: in \<open>db1\<close> Bela has a request with Asha and none with Chen, and her
  feed is Chen.
\<close>

theorem feed_excludes_self_and_linked_witness:
  "getFeed db1 bela None None =
     Inr \<lparr>feed = [select USER_SAVE_DATA chen], pageEcho = 1, limitEcho = 10, total = 1\<rparr>
   \<and> select USER_SAVE_DATA chen \<in> set [select USER_SAVE_DATA chen]
   \<and> uid (select USER_SAVE_DATA chen) \<noteq> uid bela
   \<and> \<not> (\<exists>r \<in> set (requests db1).
          (fromUserId r = uid bela \<and> toUserId r = uid (select USER_SAVE_DATA chen))
        \<or> (fromUserId r = uid (select USER_SAVE_DATA chen) \<and> toUserId r = uid bela))
   \<and> insert (uid bela) (hideUserFromFeed db1 (uid bela))
       = insert (uid bela) (otherEnd (uid bela) ` {r \<in> set (requests db1). involves (uid bela) r})"
proof -
  have h: "getFeed db1 bela None None =
     Inr \<lparr>feed = [select USER_SAVE_DATA chen], pageEcho = 1, limitEcho = 10, total = 1\<rparr>"
    by (simp add: feed_defs example_defs)
  have m: "select USER_SAVE_DATA chen \<in> set [select USER_SAVE_DATA chen]" by simp
  from feed_excludes_self_and_linked[OF h] m h show ?thesis
    by (metis feedReply.select_convs(1))
qed

subsection \<open>Paging\<close>

text \<open>
  What the paging of the feed does with the parsed query: an absent or zero limit is 10,
  a limit above 50 is 50, any other limit is taken as it is; an absent or zero page is 1;
  a feed that is returned echoes that page and that limit and starts at the offset
  \<open>(page - 1) * limit\<close> of the candidates.
\<close>

lemma feed_paging:
  "feedLimit None = 10 \<and> feedLimit (Some 0) = 10
   \<and> (50 < n \<longrightarrow> feedLimit (Some n) = 50)
   \<and> (n \<noteq> 0 \<and> n \<le> 50 \<longrightarrow> feedLimit (Some n) = n)
   \<and> feedPage None = 1 \<and> feedPage (Some 0) = 1
   \<and> (getFeed d u pageQ limitQ = Inr rep
        \<longrightarrow> pageEcho rep = feedPage pageQ \<and> limitEcho rep = feedLimit limitQ
          \<and> 0 \<le> (feedPage pageQ - 1) * feedLimit limitQ
          \<and> length (feed rep) \<le> length (users d) - nat ((feedPage pageQ - 1) * feedLimit limitQ))"
proof -
  have "getFeed d u pageQ limitQ = Inr rep
        \<longrightarrow> pageEcho rep = feedPage pageQ \<and> limitEcho rep = feedLimit limitQ
          \<and> 0 \<le> (feedPage pageQ - 1) * feedLimit limitQ
          \<and> length (feed rep) \<le> length (users d) - nat ((feedPage pageQ - 1) * feedLimit limitQ)"
  proof
    assume a: "getFeed d u pageQ limitQ = Inr rep"
    let ?xs = "map (select USER_SAVE_DATA)
       (filter (\<lambda>v. uid v \<noteq> uid u \<and> uid v \<notin> hideUserFromFeed d (uid u)) (users d))"
    let ?sk = "(feedPage pageQ - 1) * feedLimit limitQ"
    from a obtain ys where c: "cursor ?sk (feedLimit limitQ) ?xs = Inr ys"
      by (cases "cursor ?sk (feedLimit limitQ) ?xs") (simp_all add: getFeed_def Let_def)
    with a have r: "rep = \<lparr>feed = ys, pageEcho = feedPage pageQ, limitEcho = feedLimit limitQ,
        total = length ys\<rparr>"
      by (simp add: getFeed_def Let_def)
    from c have sk: "0 \<le> ?sk" by (auto simp: cursor_def split: if_splits)
    from c sk have "length ys \<le> length ?xs - nat ?sk"
      by (auto simp: cursor_def Let_def split: if_splits)
    moreover have "length ?xs \<le> length (users d)" by simp
    ultimately have "length ys \<le> length (users d) - nat ?sk" by linarith
    with r sk show "pageEcho rep = feedPage pageQ \<and> limitEcho rep = feedLimit limitQ
          \<and> 0 \<le> (feedPage pageQ - 1) * feedLimit limitQ
          \<and> length (feed rep) \<le> length (users d) - nat ((feedPage pageQ - 1) * feedLimit limitQ)"
      by simp
  qed
  then show ?thesis
    by (simp add: feedLimit_def feedPage_def orDefault_def)
qed

text \<open>
  Claim C5 at a negative limit. The requested limit \<open>-1\<close> is neither replaced by the
  default 10 nor brought into the range from 1 to 50: the route echoes the limit \<open>-1\<close> and
  returns one user where the default returns two, and on page 2 the negative offset makes
  the query fail.
\<close>

theorem negative_limit_is_not_defaulted:
  "feedLimit (Some (- 1)) = - 1
   \<and> getFeed db0 asha None (Some (- 1))
       = Inr \<lparr>feed = [select USER_SAVE_DATA bela], pageEcho = 1, limitEcho = - 1, total = 1\<rparr>
   \<and> getFeed db0 asha None None
       = Inr \<lparr>feed = [select USER_SAVE_DATA bela, select USER_SAVE_DATA chen],
              pageEcho = 1, limitEcho = 10, total = 2\<rparr>
   \<and> getFeed db0 asha (Some 2) (Some (- 1)) = Inl SkipNegative"
  by (simp add: feed_defs example_defs)

subsection \<open>The order of the answers\<close>




subsection \<open>Connections\<close>

lemma fold_max_ge: "(a::nat) \<le> fold max xs a \<and> (\<forall>x \<in> set xs. x \<le> fold max xs a)"
proof (induction xs arbitrary: a)
  case Nil
  then show ?case by simp
next
  case (Cons y ys)
  have "max y a \<le> fold max ys (max y a)" and "\<forall>x \<in> set ys. x \<le> fold max ys (max y a)"
    using Cons.IH[of "max y a"] by simp_all
  then show ?case by auto
qed

lemma newObjectId_fresh: "newObjectId d \<notin> rid ` set (requests d)"
proof
  assume "newObjectId d \<in> rid ` set (requests d)"
  then have "newObjectId d \<in> set (map rid (requests d))" by simp
  then have "newObjectId d \<le> fold max (map rid (requests d)) 0"
    using fold_max_ge[of 0 "map rid (requests d)"] by blast
  then show False by (simp add: newObjectId_def)
qed

lemma sendRoute_Inr_D:
  assumes "sendRoute d a st b t = (d1, Inr rep1)"
  shows "\<exists>ua ub. findById d a = Some ua \<and> findById d b = Some ub \<and> a \<noteq> b
           \<and> d1 = d\<lparr>requests := requests d @
                  [\<lparr>rid = newObjectId d, fromUserId = a, toUserId = b, status = st,
                    createdAt = t, updatedAt = t\<rparr>]\<rparr>
           \<and> data rep1 = \<lparr>rid = newObjectId d, fromUserId = a, toUserId = b, status = st,
                    createdAt = t, updatedAt = t\<rparr>"
proof -
  from assms obtain ua where ua: "findById d a = Some ua"
    by (cases "findById d a") (simp_all add: sendRoute_def userAuth_def)
  then have uid: "uid ua = a" using findById_Some_uid by blast
  from assms ua have s: "send d ua st b t = (d1, Inr rep1)"
    by (simp add: sendRoute_def userAuth_def)
  then have st: "st \<in> set allowedStatus" by (auto simp: send_def Let_def split: if_splits)
  from s st obtain ub where ub: "findById d b = Some ub"
    by (cases "findById d b") (simp_all add: send_def Let_def)
  from s st ub have n: "findOne (existingRequest (uid ua) b) d = None"
    by (cases "findOne (existingRequest (uid ua) b) d") (simp_all add: send_def Let_def)
  from s st ub n have c: "canSend (uid ua) b"
    by (cases "canSend (uid ua) b") (simp_all add: send_def Let_def)
  from s st ub n c uid have "d1 = d\<lparr>requests := requests d @
                  [\<lparr>rid = newObjectId d, fromUserId = a, toUserId = b, status = st,
                    createdAt = t, updatedAt = t\<rparr>]\<rparr>
           \<and> data rep1 = \<lparr>rid = newObjectId d, fromUserId = a, toUserId = b, status = st,
                    createdAt = t, updatedAt = t\<rparr>"
    by (auto simp: send_def Let_def)
  moreover have "a \<noteq> b" using c uid by (simp add: canSend_def)
  ultimately show ?thesis using ua ub by blast
qed






subsection \<open>The profile update\<close>

lemma validUpdateData_Inr:
  "validUpdateData strNum b = Inr ok \<Longrightarrow>
   ok = list_all (\<lambda>key. key \<in> set ALLOWED_UPDATES) (map fst b)"
  by (auto simp: validUpdateData_def Let_def split: if_splits jsval.splits)

lemma fold_assign:
  "uid (fold (\<lambda>key v. v\<lparr>path := (path v)(key := f key)\<rparr>) ks u) = uid u
   \<and> path (fold (\<lambda>key v. v\<lparr>path := (path v)(key := f key)\<rparr>) ks u) k
       = (if k \<in> set ks then f k else path u k)"
  by (induction ks arbitrary: u) auto

lemma assignAll_path:
  "uid (assignAll b u) = uid u
   \<and> path (assignAll b u) k = (if k \<in> fst ` set b then field b k else path u k)"
  using fold_assign[of "field b" "map fst b" u k] by (simp add: assignAll_def)

text \<open>
  Claim C9, as amended. The result of the whitelist check is what \<^verbatim>\<open>validUpdateData\<close>
  returns, and the route refuses the update when it is false. A body with a key outside
  \<^verbatim>\<open>ALLOWED_UPDATES\<close> never updates the user: the route answers with an error and the
  store is as it was; when the field checks pass, the error is "Invalid update data
  provided". An update that succeeds had allowed keys only; it assigns every field of
  the body to the user, leaves the other paths as they were, and stores what the schema
  makes of the document.
\<close>

theorem patch_gated_by_whitelist:
  "(\<not> list_all (\<lambda>key. key \<in> set ALLOWED_UPDATES) (map fst b)
      \<longrightarrow> (\<exists>e. patchUser strNum schemaSave d u b = (d, Inl e)))
   \<and> (validUpdateData strNum b = Inr False
      \<longrightarrow> patchUser strNum schemaSave d u b = (d, Inl InvalidUpdateData))
   \<and> (patchUser strNum schemaSave d u b = (d', Inr saved)
      \<longrightarrow> set (map fst b) \<subseteq> set ALLOWED_UPDATES
        \<and> schemaSave (assignAll b u) = Some saved
        \<and> d' = d\<lparr>users := replaceUser saved (users d)\<rparr>
        \<and> (\<forall>k. path (assignAll b u) k = (if k \<in> fst ` set b then field b k else path u k)))"
proof (intro conjI impI)
  assume n: "\<not> list_all (\<lambda>key. key \<in> set ALLOWED_UPDATES) (map fst b)"
  show "\<exists>e. patchUser strNum schemaSave d u b = (d, Inl e)"
  proof (cases "validUpdateData strNum b")
    case (Inl e)
    then show ?thesis by (simp add: patchUser_def)
  next
    case (Inr ok)
    from validUpdateData_Inr[OF Inr] n have "\<not> ok" by simp
    with Inr show ?thesis by (simp add: patchUser_def)
  qed
next
  assume "validUpdateData strNum b = Inr False"
  then show "patchUser strNum schemaSave d u b = (d, Inl InvalidUpdateData)"
    by (simp add: patchUser_def)
next
  assume p: "patchUser strNum schemaSave d u b = (d', Inr saved)"
  then obtain ok where ok: "validUpdateData strNum b = Inr ok"
    by (cases "validUpdateData strNum b") (simp_all add: patchUser_def)
  with p have t: "ok" by (auto simp: patchUser_def split: if_splits)
  from validUpdateData_Inr[OF ok] t
  show "set (map fst b) \<subseteq> set ALLOWED_UPDATES"
    by (auto simp: list_all_iff)
  from p ok t show "schemaSave (assignAll b u) = Some saved"
    and "d' = d\<lparr>users := replaceUser saved (users d)\<rparr>"
    by (auto simp: patchUser_def split: option.splits)
  show "\<forall>k. path (assignAll b u) k = (if k \<in> fst ` set b then field b k else path u k)"
    using assignAll_path by blast
qed

lemma toLowerCase_Female: "toLowerCase ''Female'' = ''female''"
  by code_simp

lemmas patch_defs =
  patchUser_def validUpdateData_def field_def toLowerCase_Female ALLOWED_UPDATES_def
  jsLess_def jsGreater_def patchAllowed_def patchWithEmail_def noStringIsNumber_def
  schemaAcceptsAll_def Let_def

text \<open>
  Claim C9 as stated, "the update proceeds unconditionally, even when the request contains
  a field outside the whitelist", fails: a body that passes every field check and also
  carries \<^verbatim>\<open>emailId\<close> is refused and nothing is stored.
\<close>

theorem whitelist_stops_the_update:
  "''emailId'' \<in> set (map fst patchWithEmail)
   \<and> ''emailId'' \<notin> set ALLOWED_UPDATES
   \<and> validUpdateData noStringIsNumber patchWithEmail = Inr False
   \<and> patchUser noStringIsNumber schemaAcceptsAll db0 asha patchWithEmail
       = (db0, Inl InvalidUpdateData)"
  by (simp add: patch_defs)

text \<open>
  The theorem at work: the body with \<^verbatim>\<open>emailId\<close> is refused; the body with allowed keys
  only is stored, with the new age and the old password.
\<close>

theorem patch_gated_by_whitelist_witness:
  "\<not> list_all (\<lambda>key. key \<in> set ALLOWED_UPDATES) (map fst patchWithEmail)
   \<and> (\<exists>e. patchUser noStringIsNumber schemaAcceptsAll db0 asha patchWithEmail = (db0, Inl e))
   \<and> validUpdateData noStringIsNumber patchWithEmail = Inr False
   \<and> patchUser noStringIsNumber schemaAcceptsAll db0 asha patchWithEmail
       = (db0, Inl InvalidUpdateData)
   \<and> patchUser noStringIsNumber schemaAcceptsAll db0 asha patchAllowed
       = (db0\<lparr>users := replaceUser (assignAll patchAllowed asha) (users db0)\<rparr>,
          Inr (assignAll patchAllowed asha))
   \<and> set (map fst patchAllowed) \<subseteq> set ALLOWED_UPDATES
   \<and> path (assignAll patchAllowed asha) ''age'' = JNum 31
   \<and> path (assignAll patchAllowed asha) ''password'' = JStr ''hash''"
proof -
  have n: "\<not> list_all (\<lambda>key. key \<in> set ALLOWED_UPDATES) (map fst patchWithEmail)"
    by (simp add: patch_defs)
  have v: "validUpdateData noStringIsNumber patchWithEmail = Inr False"
    by (simp add: patch_defs)
  have p: "patchUser noStringIsNumber schemaAcceptsAll db0 asha patchAllowed
       = (db0\<lparr>users := replaceUser (assignAll patchAllowed asha) (users db0)\<rparr>,
          Inr (assignAll patchAllowed asha))"
    by (simp add: patch_defs)
  note t1 = patch_gated_by_whitelist[of patchWithEmail noStringIsNumber schemaAcceptsAll db0 asha]
  note t2 = patch_gated_by_whitelist[of patchAllowed noStringIsNumber schemaAcceptsAll db0 asha
      "db0\<lparr>users := replaceUser (assignAll patchAllowed asha) (users db0)\<rparr>"
      "assignAll patchAllowed asha"]
  from t1 n have a: "\<exists>e. patchUser noStringIsNumber schemaAcceptsAll db0 asha patchWithEmail = (db0, Inl e)"
    by blast
  from t1 v have b: "patchUser noStringIsNumber schemaAcceptsAll db0 asha patchWithEmail
       = (db0, Inl InvalidUpdateData)" by blast
  from t2 p have c: "set (map fst patchAllowed) \<subseteq> set ALLOWED_UPDATES"
    and k: "\<forall>k. path (assignAll patchAllowed asha) k
        = (if k \<in> fst ` set patchAllowed then field patchAllowed k else path asha k)"
    by blast+
  have e: "path (assignAll patchAllowed asha) ''age'' = JNum 31"
    using k by (simp add: patchAllowed_def field_def)
  have f: "path (assignAll patchAllowed asha) ''password'' = JStr ''hash''"
    using k by (simp add: patchAllowed_def field_def asha_def person_def)
  from n a v b p c e f show ?thesis by blast
qed

subsection \<open>The store stays well formed\<close>

text \<open>
  Unique ids, resolving references and the absence of requests from a user to herself are
  invariants of the writing calls: every store that the routes reach from a store that
  has them has them too.
\<close>

lemma send_requests:
  "requests (fst (send d u st toId now)) = requests d
   \<or> (toId \<in> uid ` set (users d) \<and> uid u \<noteq> toId
      \<and> requests (fst (send d u st toId now)) =
          requests d @ [\<lparr>rid = newObjectId d, fromUserId = uid u, toUserId = toId, status = st,
                         createdAt = now, updatedAt = now\<rparr>])"
proof (cases "snd (send d u st toId now)")
  case (Inl e)
  then have "fst (send d u st toId now) = d"
    by (auto simp: send_def Let_def split: option.splits if_splits)
  then show ?thesis by simp
next
  case (Inr rep)
  then have st: "st \<in> set allowedStatus"
    by (auto simp: send_def Let_def split: if_splits)
  from Inr st obtain v where v: "findById d toId = Some v"
    by (cases "findById d toId") (simp_all add: send_def Let_def)
  from Inr st v have n: "findOne (existingRequest (uid u) toId) d = None"
    by (cases "findOne (existingRequest (uid u) toId) d") (simp_all add: send_def Let_def)
  from Inr st v n have c: "canSend (uid u) toId"
    by (cases "canSend (uid u) toId") (simp_all add: send_def Let_def)
  have "toId \<in> uid ` set (users d)"
    using v findById_None_iff[of d toId] by simp
  moreover have "uid u \<noteq> toId" using c by (simp add: canSend_def)
  moreover have "requests (fst (send d u st toId now)) =
          requests d @ [\<lparr>rid = newObjectId d, fromUserId = uid u, toUserId = toId, status = st,
                         createdAt = now, updatedAt = now\<rparr>]"
    using st v n c by (simp add: send_def Let_def)
  ultimately show ?thesis by blast
qed

lemma review_requests:
  "requests (fst (review d u st i now)) = requests d
   \<or> (\<exists>j. requests (fst (review d u st i now)) = updateOne j st now (requests d))"
  by (auto simp: review_def Let_def split: option.splits)

lemma updateOne_all:
  "list_all (\<lambda>r. P (fromUserId r) (toUserId r)) rs \<Longrightarrow>
   list_all (\<lambda>r. P (fromUserId r) (toUserId r)) (updateOne j s t rs)"
  by (induction rs) auto

lemma exec_requests:
  "requests (exec d c) = requests d
   \<or> (\<exists>a b st t. a \<in> uid ` set (users d) \<and> b \<in> uid ` set (users d) \<and> a \<noteq> b
        \<and> requests (exec d c) =
            requests d @ [\<lparr>rid = newObjectId d, fromUserId = a, toUserId = b, status = st,
                           createdAt = t, updatedAt = t\<rparr>])
   \<or> (\<exists>j st t. requests (exec d c) = updateOne j st t (requests d))"
proof (cases c)
  case (Send me st toId now)
  show ?thesis
  proof (cases "findById d me")
    case None
    with Send show ?thesis by (simp add: sendRoute_def userAuth_def)
  next
    case (Some u)
    then have me: "uid u \<in> uid ` set (users d)"
      using findById_Some_uid by force
    have e: "exec d c = fst (send d u st toId now)"
      using Send Some by (simp add: sendRoute_def userAuth_def)
    from send_requests[of d u st toId now] me show ?thesis unfolding e by blast
  qed
next
  case (Review me st i now)
  show ?thesis
  proof (cases "findById d me")
    case None
    with Review show ?thesis by (simp add: reviewRoute_def userAuth_def)
  next
    case (Some u)
    have e: "exec d c = fst (review d u st i now)"
      using Review Some by (simp add: reviewRoute_def userAuth_def)
    from review_requests[of d u st i now] show ?thesis unfolding e by blast
  qed
qed

lemma exec_uniqueIds: "uniqueIds d \<Longrightarrow> uniqueIds (exec d c)"
  using exec_requests[of d c] newObjectId_fresh[of d]
  by (auto simp: uniqueIds_def exec_users updateOne_map_rid)

lemma exec_refsResolve: "refsResolve d \<Longrightarrow> refsResolve (exec d c)"
  using exec_requests[of d c]
    updateOne_all[of "\<lambda>f t. f \<in> uid ` set (users d) \<and> t \<in> uid ` set (users d)" "requests d"]
  by (auto simp: refsResolve_def exec_users)

lemma exec_noSelfRequest: "noSelfRequest d \<Longrightarrow> noSelfRequest (exec d c)"
  using exec_requests[of d c] updateOne_all[of "\<lambda>f t. f \<noteq> t" "requests d"]
  by (auto simp: noSelfRequest_def)

lemma run_wellformed:
  "uniqueIds d \<and> refsResolve d \<and> noSelfRequest d \<Longrightarrow>
   uniqueIds (run d cs) \<and> refsResolve (run d cs) \<and> noSelfRequest (run d cs)"
  unfolding run_def
proof (induction cs arbitrary: d)
  case Nil
  then show ?case by simp
next
  case (Cons c cs)
  from Cons.prems have "uniqueIds (exec d c) \<and> refsResolve (exec d c) \<and> noSelfRequest (exec d c)"
    by (simp add: exec_uniqueIds exec_refsResolve exec_noSelfRequest)
  from Cons.IH[OF this] show ?case by simp
qed

lemma run_from_no_requests:
  "requests d = [] \<Longrightarrow> distinct (map uid (users d)) \<Longrightarrow>
   uniqueIds (run d cs) \<and> refsResolve (run d cs) \<and> noSelfRequest (run d cs)"
  by (rule run_wellformed) (simp add: uniqueIds_def refsResolve_def noSelfRequest_def)

subsection \<open>Who can review, and when\<close>

lemma sendRoute_then_sender:
  assumes u: "uniqueIds d" and s: "sendRoute d a st' b t = (d1, Inr rep1)"
    and st: "st \<in> set isAllowedStatus"
  shows "reviewRoute d1 a st (rid (data rep1)) now = (d1, Inl REQUEST_NOT_FOUND)"
proof -
  let ?new = "\<lparr>rid = newObjectId d, fromUserId = a, toUserId = b, status = st',
                createdAt = t, updatedAt = t\<rparr>"
  from sendRoute_Inr_D[OF s] obtain ua where
    ua: "findById d a = Some ua" and ab: "a \<noteq> b"
    and d1: "d1 = d\<lparr>requests := requests d @ [?new]\<rparr>" and dat: "data rep1 = ?new"
    by blast
  have e: "exec d (Send a st' b t) = d1" using s by simp
  have u1: "uniqueIds d1" using exec_uniqueIds[OF u, of "Send a st' b t"] e by simp
  have fa: "findById d1 a = Some ua" using ua d1 by (simp add: findById_def)
  have uida: "uid ua = a" using ua findById_Some_uid by blast
  have mem: "?new \<in> set (requests d1)" using d1 by simp
  have "toUserId ?new \<noteq> uid ua \<or> status ?new \<noteq> ''like''" using ab uida by simp
  from review_not_found_record[OF st u1 mem this, of now]
  have "review d1 ua st (newObjectId d) now = (d1, Inl REQUEST_NOT_FOUND)" by simp
  with fa dat show ?thesis by (simp add: reviewRoute_def userAuth_def)
qed

lemma review_then_again:
  assumes u: "uniqueIds d" and r: "review d v st i now = (d', Inr rep)"
    and st2: "st2 \<in> set isAllowedStatus"
  shows "review d' w st2 i now2 = (d', Inl REQUEST_NOT_FOUND)"
proof -
  from review_success_D[OF r] obtain q where
    q: "findOne (reviewable i (uid v)) d = Some q" and st: "st \<in> set isAllowedStatus"
    and d': "d' = d\<lparr>requests := updateOne i st now (requests d)\<rparr>" by blast
  from findOne_Some_D[OF q] have qs: "q \<in> set (requests d)" and qi: "rid q = i"
    by (simp_all add: reviewable_def)
  have u': "uniqueIds d'" using u d' by (simp add: uniqueIds_def updateOne_map_rid)
  have "set (requests d') = insert (q\<lparr>status := st, updatedAt := now\<rparr>) (set (requests d) - {q})"
    using updateOne_set_unique[of "requests d" q st now] u qs qi d' by (simp add: uniqueIds_def)
  then have mem: "q\<lparr>status := st, updatedAt := now\<rparr> \<in> set (requests d')" by simp
  have "st \<noteq> ''like''" using st by (auto simp: isAllowedStatus_def)
  then have "toUserId (q\<lparr>status := st, updatedAt := now\<rparr>) \<noteq> uid w
      \<or> status (q\<lparr>status := st, updatedAt := now\<rparr>) \<noteq> ''like''" by simp
  from review_not_found_record[OF st2 u' mem this, of now2] qi show ?thesis by simp
qed

text \<open>
  Claim C2. For a decision that is accept or reject, review answers
  \<^verbatim>\<open>REQUEST_NOT_FOUND\<close> (and leaves the store as it was) exactly when no stored request
  has the given \<^verbatim>\<open>_id\<close>, the reviewer as \<^verbatim>\<open>toUserId\<close> and the status like: one combined
  lookup. In particular, in a store with unique ids and no request from a user to
  herself, the sender of a request cannot review it; a request whose status is already
  accept or reject cannot be reviewed; the sender of a request that has just been sent
  cannot review it; and after a successful review every further review of the same
  request, by anyone and with either decision, answers \<^verbatim>\<open>REQUEST_NOT_FOUND\<close>.
\<close>

theorem review_request_not_found:
  "st \<in> set isAllowedStatus \<Longrightarrow>
     ((review d u st i now = (d, Inl REQUEST_NOT_FOUND))
        = (\<not> (\<exists>r \<in> set (requests d). rid r = i \<and> toUserId r = uid u \<and> status r = ''like'')))
   \<and> (uniqueIds d \<and> noSelfRequest d \<longrightarrow> (\<forall>r \<in> set (requests d).
          fromUserId r = uid u \<longrightarrow> review d u st (rid r) now = (d, Inl REQUEST_NOT_FOUND)))
   \<and> (uniqueIds d \<longrightarrow> (\<forall>r \<in> set (requests d).
          status r \<in> {''accept'', ''reject''}
            \<longrightarrow> review d u st (rid r) now = (d, Inl REQUEST_NOT_FOUND)))
   \<and> (uniqueIds d \<and> sendRoute d a stS b t = (dS, Inr repS)
        \<longrightarrow> reviewRoute dS a st (rid (data repS)) now = (dS, Inl REQUEST_NOT_FOUND))
   \<and> (uniqueIds d \<and> stR \<in> set isAllowedStatus \<and> review d u st i now = (dR, Inr repR)
        \<longrightarrow> review dR w stR i nowR = (dR, Inl REQUEST_NOT_FOUND))"
proof -
  assume st: "st \<in> set isAllowedStatus"
  have c1: "(review d u st i now = (d, Inl REQUEST_NOT_FOUND))
        = (\<not> (\<exists>r \<in> set (requests d). rid r = i \<and> toUserId r = uid u \<and> status r = ''like''))"
    by (rule review_not_found_iff[OF st])
  have c2: "uniqueIds d \<and> noSelfRequest d \<longrightarrow> (\<forall>r \<in> set (requests d).
          fromUserId r = uid u \<longrightarrow> review d u st (rid r) now = (d, Inl REQUEST_NOT_FOUND))"
  proof (intro impI ballI)
    fix r assume h: "uniqueIds d \<and> noSelfRequest d" and r: "r \<in> set (requests d)"
      and f: "fromUserId r = uid u"
    from h r have "fromUserId r \<noteq> toUserId r" by (auto simp: noSelfRequest_def list_all_iff)
    with f have "toUserId r \<noteq> uid u \<or> status r \<noteq> ''like''" by simp
    from review_not_found_record[OF st _ r this] h
    show "review d u st (rid r) now = (d, Inl REQUEST_NOT_FOUND)" by blast
  qed
  have c3: "uniqueIds d \<longrightarrow> (\<forall>r \<in> set (requests d).
          status r \<in> {''accept'', ''reject''}
            \<longrightarrow> review d u st (rid r) now = (d, Inl REQUEST_NOT_FOUND))"
  proof (intro impI ballI)
    fix r assume h: "uniqueIds d" and r: "r \<in> set (requests d)"
      and s: "status r \<in> {''accept'', ''reject''}"
    from s have "toUserId r \<noteq> uid u \<or> status r \<noteq> ''like''" by auto
    from review_not_found_record[OF st h r this]
    show "review d u st (rid r) now = (d, Inl REQUEST_NOT_FOUND)" .
  qed
  have c4: "uniqueIds d \<and> sendRoute d a stS b t = (dS, Inr repS)
        \<longrightarrow> reviewRoute dS a st (rid (data repS)) now = (dS, Inl REQUEST_NOT_FOUND)"
    using sendRoute_then_sender[OF _ _ st] by blast
  have c5: "uniqueIds d \<and> stR \<in> set isAllowedStatus \<and> review d u st i now = (dR, Inr repR)
        \<longrightarrow> review dR w stR i nowR = (dR, Inl REQUEST_NOT_FOUND)"
    using review_then_again by blast
  from c1 c2 c3 c4 c5 show ?thesis by blast
qed

text \<open>
  The theorem at work. In \<open>db1\<close> no request has the id 7, Asha is the sender of request 1
  and request 2 is already accepted. From \<open>db0\<close>, Asha likes Bela and cannot review her
  own request. In \<open>db1\<close>, Bela rejects request 1 and cannot accept it afterwards.
\<close>

theorem review_request_not_found_witness:
  "''reject'' \<in> set isAllowedStatus \<and> ''accept'' \<in> set isAllowedStatus
   \<and> uniqueIds db1 \<and> noSelfRequest db1 \<and> uniqueIds db0
   \<and> review db1 bela ''reject'' 7 9 = (db1, Inl REQUEST_NOT_FOUND)
   \<and> \<lparr>rid = 1, fromUserId = 1, toUserId = 2, status = ''like'', createdAt = 5, updatedAt = 5\<rparr>
        \<in> set (requests db1)
   \<and> uid asha = 1
   \<and> review db1 asha ''reject'' 1 9 = (db1, Inl REQUEST_NOT_FOUND)
   \<and> \<lparr>rid = 2, fromUserId = 3, toUserId = 1, status = ''accept'', createdAt = 6, updatedAt = 8\<rparr>
        \<in> set (requests db1)
   \<and> review db1 asha ''reject'' 2 9 = (db1, Inl REQUEST_NOT_FOUND)
   \<and> sendRoute db0 1 ''like'' 2 5 =
       (db0\<lparr>requests := [\<lparr>rid = 1, fromUserId = 1, toUserId = 2, status = ''like'',
                             createdAt = 5, updatedAt = 5\<rparr>]\<rparr>,
        Inr \<lparr>msg = Some (Interested (JStr ''Asha'') (JStr ''Bela'')),
             data = \<lparr>rid = 1, fromUserId = 1, toUserId = 2, status = ''like'',
                      createdAt = 5, updatedAt = 5\<rparr>,
             statusEcho = ''like'',
             fromUser = (JStr ''Asha'', JStr ''Rao''), toUser = (JStr ''Bela'', JStr ''Kiss'')\<rparr>)
   \<and> reviewRoute (db0\<lparr>requests := [\<lparr>rid = 1, fromUserId = 1, toUserId = 2, status = ''like'',
                             createdAt = 5, updatedAt = 5\<rparr>]\<rparr>) 1 ''reject'' 1 6 =
       (db0\<lparr>requests := [\<lparr>rid = 1, fromUserId = 1, toUserId = 2, status = ''like'',
                             createdAt = 5, updatedAt = 5\<rparr>]\<rparr>, Inl REQUEST_NOT_FOUND)
   \<and> review db1 bela ''reject'' 1 9 =
       (db1\<lparr>requests :=
          [\<lparr>rid = 1, fromUserId = 1, toUserId = 2, status = ''reject'', createdAt = 5, updatedAt = 9\<rparr>,
           \<lparr>rid = 2, fromUserId = 3, toUserId = 1, status = ''accept'', createdAt = 6, updatedAt = 8\<rparr>]\<rparr>,
        Inr \<lparr>msg = Some (Reviewed (JStr ''Bela'') ''reject'' (JStr ''Asha'')),
             data = \<lparr>rid = 1, fromUserId = 1, toUserId = 2, status = ''reject'',
                      createdAt = 5, updatedAt = 9\<rparr>,
             statusEcho = ''reject'',
             fromUser = (JStr ''Asha'', JStr ''Rao''), toUser = (JStr ''Bela'', JStr ''Kiss'')\<rparr>)
   \<and> review (db1\<lparr>requests :=
          [\<lparr>rid = 1, fromUserId = 1, toUserId = 2, status = ''reject'', createdAt = 5, updatedAt = 9\<rparr>,
           \<lparr>rid = 2, fromUserId = 3, toUserId = 1, status = ''accept'', createdAt = 6, updatedAt = 8\<rparr>]\<rparr>)
        bela ''accept'' 1 10 =
       (db1\<lparr>requests :=
          [\<lparr>rid = 1, fromUserId = 1, toUserId = 2, status = ''reject'', createdAt = 5, updatedAt = 9\<rparr>,
           \<lparr>rid = 2, fromUserId = 3, toUserId = 1, status = ''accept'', createdAt = 6, updatedAt = 8\<rparr>]\<rparr>,
        Inl REQUEST_NOT_FOUND)"
proof -
  let ?r1 = "\<lparr>rid = 1, fromUserId = 1, toUserId = 2, status = ''like'', createdAt = 5, updatedAt = 5\<rparr>"
  let ?r2 = "\<lparr>rid = 2, fromUserId = 3, toUserId = 1, status = ''accept'', createdAt = 6, updatedAt = 8\<rparr>"
  let ?D1 = "db0\<lparr>requests := [?r1]\<rparr>"
  let ?R1 = "\<lparr>msg = Some (Interested (JStr ''Asha'') (JStr ''Bela'')), data = ?r1,
             statusEcho = ''like'',
             fromUser = (JStr ''Asha'', JStr ''Rao''), toUser = (JStr ''Bela'', JStr ''Kiss'')\<rparr>"
  let ?D2 = "db1\<lparr>requests :=
          [\<lparr>rid = 1, fromUserId = 1, toUserId = 2, status = ''reject'', createdAt = 5, updatedAt = 9\<rparr>,
           ?r2]\<rparr>"
  let ?R2 = "\<lparr>msg = Some (Reviewed (JStr ''Bela'') ''reject'' (JStr ''Asha'')),
             data = \<lparr>rid = 1, fromUserId = 1, toUserId = 2, status = ''reject'',
                      createdAt = 5, updatedAt = 9\<rparr>,
             statusEcho = ''reject'',
             fromUser = (JStr ''Asha'', JStr ''Rao''), toUser = (JStr ''Bela'', JStr ''Kiss'')\<rparr>"
  have st: "''reject'' \<in> set isAllowedStatus" and st2: "''accept'' \<in> set isAllowedStatus"
    by (simp_all add: isAllowedStatus_def)
  have un: "uniqueIds db1" and un0: "uniqueIds db0" by (simp_all add: uniqueIds_def example_defs)
  have ns: "noSelfRequest db1" by (simp add: noSelfRequest_def example_defs)
  have r1: "?r1 \<in> set (requests db1)" and r2: "?r2 \<in> set (requests db1)"
    by (simp_all add: db1_def)
  have ua: "uid asha = 1" by (simp add: example_defs)
  have none: "\<not> (\<exists>r \<in> set (requests db1). rid r = 7 \<and> toUserId r = uid bela \<and> status r = ''like'')"
    by (simp add: example_defs)
  have s: "sendRoute db0 1 ''like'' 2 5 = (?D1, Inr ?R1)"
    by (simp add: route_defs example_defs)
  have rv: "review db1 bela ''reject'' 1 9 = (?D2, Inr ?R2)"
    by (simp add: route_defs example_defs)
  note T = review_request_not_found[OF st]
  have a: "review db1 bela ''reject'' 7 9 = (db1, Inl REQUEST_NOT_FOUND)"
    using T[where d = db1 and u = bela and i = 7 and now = 9, THEN conjunct1] none by blast
  have "fromUserId ?r1 = uid asha" using ua by simp
  with T[where d = db1 and u = asha and now = 9, THEN conjunct2, THEN conjunct1] un ns r1
  have b: "review db1 asha ''reject'' (rid ?r1) 9 = (db1, Inl REQUEST_NOT_FOUND)"
    by blast
  have "status ?r2 \<in> {''accept'', ''reject''}" by simp
  with T[where d = db1 and u = asha and now = 9, THEN conjunct2, THEN conjunct2, THEN conjunct1]
    un r2
  have c: "review db1 asha ''reject'' (rid ?r2) 9 = (db1, Inl REQUEST_NOT_FOUND)"
    by blast
  have e: "reviewRoute ?D1 1 ''reject'' (rid (data ?R1)) 6 = (?D1, Inl REQUEST_NOT_FOUND)"
    using T[where d = db0 and a = 1 and stS = "''like''" and b = 2
        and t = 5 and dS = ?D1 and repS = ?R1 and now = 6,
        THEN conjunct2, THEN conjunct2, THEN conjunct2, THEN conjunct1] un0 s by blast
  have f: "review ?D2 bela ''accept'' 1 10 = (?D2, Inl REQUEST_NOT_FOUND)"
    using T[where d = db1 and u = bela and i = 1 and now = 9
        and stR = "''accept''" and dR = ?D2 and repR = ?R2 and w = bela and nowR = 10,
        THEN conjunct2, THEN conjunct2, THEN conjunct2, THEN conjunct2]
      un st2 rv by blast
  have b': "review db1 asha ''reject'' 1 9 = (db1, Inl REQUEST_NOT_FOUND)" using b by simp
  have c': "review db1 asha ''reject'' 2 9 = (db1, Inl REQUEST_NOT_FOUND)" using c by simp
  have e': "reviewRoute ?D1 1 ''reject'' 1 6 = (?D1, Inl REQUEST_NOT_FOUND)" using e by simp
  from st st2 un ns un0 a b' c' e' f r1 r2 ua s rv show ?thesis by blast
qed

subsection \<open>A send whose target is the sender\<close>

lemma send_failure_keeps_store:
  "snd (send d u st toId now) = Inl e \<Longrightarrow> fst (send d u st toId now) = d"
  by (auto simp: send_def Let_def split: option.splits if_splits)

lemma send_self_fails: "\<exists>e. send d u st (uid u) now = (d, Inl e)"
proof (cases "st \<in> set allowedStatus")
  case False
  then show ?thesis by (simp add: send_def)
next
  case True
  show ?thesis
  proof (cases "findById d (uid u)")
    case None
    with True show ?thesis by (simp add: send_def)
  next
    case (Some v)
    show ?thesis
    proof (cases "findOne (existingRequest (uid u) (uid u)) d")
      case None
      with True Some show ?thesis by (simp add: send_def canSend_def)
    next
      case (Some q)
      with True \<open>findById d (uid u) = Some v\<close> show ?thesis by (simp add: send_def)
    qed
  qed
qed

lemma sendRoute_self_fails: "\<exists>e. sendRoute d a st a now = (d, Inl e)"
proof (cases "findById d a")
  case None
  then show ?thesis by (simp add: sendRoute_def userAuth_def)
next
  case (Some u)
  then have "uid u = a" using findById_Some_uid by blast
  with send_self_fails[of d u st now] Some show ?thesis
    by (simp add: sendRoute_def userAuth_def)
qed

text \<open>
  Claim C3. A send whose target is the sender always fails and leaves the store as it
  was, for the handler with any logged-in user and for the route with any id: whether the
  status is allowed or not, whether the target is a stored user or not, and whether a
  request of the pair is stored or not. \<open>canSend\<close> holds iff the two ids differ, no send to
  oneself succeeds, and no send succeeds for which \<open>canSend\<close> is false. The check is the
  one modelled from the spec as \<open>canSend\<close>; the other refusals are the handler's own.
\<close>

theorem self_send_always_fails:
  "(\<exists>e. send d u st (uid u) now = (d, Inl e))
   \<and> (\<exists>e. sendRoute d a st a now = (d, Inl e))
   \<and> (canSend a b \<longleftrightarrow> a \<noteq> b)
   \<and> \<not> (\<exists>d' rep. sendRoute d a st a now = (d', Inr rep))
   \<and> \<not> (\<exists>d' rep. sendRoute d a st b now = (d', Inr rep) \<and> \<not> canSend a b)"
proof -
  have n: "\<not> (\<exists>d' rep. sendRoute d a st a now = (d', Inr rep))"
    using sendRoute_self_fails[of d a st now] by auto
  have m: "\<not> (\<exists>d' rep. sendRoute d a st b now = (d', Inr rep) \<and> \<not> canSend a b)"
    using sendRoute_Inr_D[of d a st b now] by (auto simp: canSend_def)
  from send_self_fails sendRoute_self_fails n m show ?thesis
    by (simp add: canSend_def)
qed

text \<open>
  The theorem at work: Asha's like for her own id is refused by the check of the model,
  an unknown user's by the middleware or by the lookup of the target, and an unknown
  status by the handler.
\<close>

theorem self_send_always_fails_witness:
  "sendRoute db0 1 ''like'' 1 5 = (db0, Inl SelfRequestRefused)
   \<and> sendRoute db0 7 ''like'' 7 5 = (db0, Inl AUTH_USER_NOT_FOUND)
   \<and> send db0 (person 7 ''Dora'' ''Pal'' 33) ''like'' 7 5 = (db0, Inl USER_NOT_FOUND)
   \<and> sendRoute db0 1 ''love'' 1 5 = (db0, Inl InvalidSendStatus)
   \<and> (\<exists>e. sendRoute db1 1 ''pass'' 1 9 = (db1, Inl e))
   \<and> canSend 1 2 \<and> \<not> canSend 1 1"
proof -
  have "\<exists>e. sendRoute db1 1 ''pass'' 1 9 = (db1, Inl e)"
    using self_send_always_fails[of db1 asha "''pass''" 9 1 2] by blast
  moreover have "canSend 1 2 \<and> \<not> canSend 1 1"
    using self_send_always_fails[of db1 asha "''pass''" 9 1 2]
      self_send_always_fails[of db1 asha "''pass''" 9 1 1] by simp
  moreover have "sendRoute db0 1 ''like'' 1 5 = (db0, Inl SelfRequestRefused)
   \<and> sendRoute db0 7 ''like'' 7 5 = (db0, Inl AUTH_USER_NOT_FOUND)
   \<and> send db0 (person 7 ''Dora'' ''Pal'' 33) ''like'' 7 5 = (db0, Inl USER_NOT_FOUND)
   \<and> sendRoute db0 1 ''love'' 1 5 = (db0, Inl InvalidSendStatus)"
    by (simp add: route_defs example_defs)
  ultimately show ?thesis by blast
qed

subsection \<open>The order of the feed and repeated reads\<close>













subsection \<open>The connections of a user\<close>



end
